theory Spec2Isabelle
  imports Complex_Main
begin

section \<open>JavaScript strings and arrays\<close>

text \<open>
  The retrieval engine of the console lives in \<^verbatim>\<open>src/lib/documentProcessor.js\<close> (class
  \<^verbatim>\<open>DocumentProcessor\<close>), \<^verbatim>\<open>src/lib/ragService.js\<close> (class \<^verbatim>\<open>RAGService\<close>) and the
  \<^verbatim>\<open>search_documents\<close> tool handler of \<^verbatim>\<open>src/pages/ConsolePage.tsx\<close>.

  A JavaScript string is modelled as a \<^typ>\<open>string\<close>: a list of code units below 256,
  read as the Latin-1 range of UTF-16. Lengths count code units, as \<^verbatim>\<open>.length\<close> does.
  Numbers that the code only uses as counters and sizes are \<^typ>\<open>nat\<close> or \<^typ>\<open>int\<close>;
  the quotients \<^verbatim>\<open>a / b\<close> of two such integers are exact rationals (\<^typ>\<open>rat\<close>).
\<close>

text \<open>The regular-expression class \<^verbatim>\<open>\s\<close> and \<^verbatim>\<open>String.prototype.trim\<close> use the same set:
  TAB, LF, VT, FF, CR, SPACE and NBSP are its members below 256.\<close>

definition isWhiteSpace :: "char \<Rightarrow> bool" where
  "isWhiteSpace c \<longleftrightarrow>
     c \<in> set [CHR 0x09, CHR 0x0A, CHR 0x0B, CHR 0x0C, CHR 0x0D, CHR 0x20, CHR 0xA0]"

text \<open>The class \<^verbatim>\<open>\w\<close> is \<^verbatim>\<open>[A-Za-z0-9_]\<close>.\<close>

definition isWordChar :: "char \<Rightarrow> bool" where
  "isWordChar c \<longleftrightarrow>
     c \<in> set (''abcdefghijklmnopqrstuvwxyz'' @ ''ABCDEFGHIJKLMNOPQRSTUVWXYZ'' @ ''0123456789_'')"

text \<open>The class \<^verbatim>\<open>[.!?]\<close> of \<^verbatim>\<open>createChunks\<close>.\<close>

definition isTerminator :: "char \<Rightarrow> bool" where
  "isTerminator c \<longleftrightarrow> c \<in> set ''.!?''"

text \<open>\<^verbatim>\<open>toLowerCase\<close>: the upper-case letters below 256 and their lower-case forms
  (\<^verbatim>\<open>A-Z\<close>, and \<^verbatim>\<open>U+00C0\<close> to \<^verbatim>\<open>U+00DE\<close> without the multiplication sign \<^verbatim>\<open>U+00D7\<close>).\<close>

definition upperChars :: "char list" where
  "upperChars = ''ABCDEFGHIJKLMNOPQRSTUVWXYZ'' @
     [CHR 0xC0, CHR 0xC1, CHR 0xC2, CHR 0xC3, CHR 0xC4, CHR 0xC5, CHR 0xC6, CHR 0xC7,
      CHR 0xC8, CHR 0xC9, CHR 0xCA, CHR 0xCB, CHR 0xCC, CHR 0xCD, CHR 0xCE, CHR 0xCF,
      CHR 0xD0, CHR 0xD1, CHR 0xD2, CHR 0xD3, CHR 0xD4, CHR 0xD5, CHR 0xD6,
      CHR 0xD8, CHR 0xD9, CHR 0xDA, CHR 0xDB, CHR 0xDC, CHR 0xDD, CHR 0xDE]"

definition lowerChars :: "char list" where
  "lowerChars = ''abcdefghijklmnopqrstuvwxyz'' @
     [CHR 0xE0, CHR 0xE1, CHR 0xE2, CHR 0xE3, CHR 0xE4, CHR 0xE5, CHR 0xE6, CHR 0xE7,
      CHR 0xE8, CHR 0xE9, CHR 0xEA, CHR 0xEB, CHR 0xEC, CHR 0xED, CHR 0xEE, CHR 0xEF,
      CHR 0xF0, CHR 0xF1, CHR 0xF2, CHR 0xF3, CHR 0xF4, CHR 0xF5, CHR 0xF6,
      CHR 0xF8, CHR 0xF9, CHR 0xFA, CHR 0xFB, CHR 0xFC, CHR 0xFD, CHR 0xFE]"

definition toLowerChar :: "char \<Rightarrow> char" where
  "toLowerChar c = (case map_of (zip upperChars lowerChars) c of None \<Rightarrow> c | Some d \<Rightarrow> d)"

definition toLowerCase :: "string \<Rightarrow> string" where
  "toLowerCase s = map toLowerChar s"

text \<open>\<^verbatim>\<open>s.trim()\<close> removes the white space at both ends.\<close>

definition trim :: "string \<Rightarrow> string" where
  "trim s = rev (dropWhile isWhiteSpace (rev (dropWhile isWhiteSpace s)))"

text \<open>
  \<^verbatim>\<open>s.split(/[C]+/)\<close> for a character class \<open>C\<close>: the pieces between the maximal runs of
  separator characters, an empty piece before a leading run and after a trailing one,
  and \<^verbatim>\<open>[""]\<close> for the empty string. \<open>cur\<close> is the piece being read, \<open>inSep\<close> says that
  the previous character belonged to a run.
\<close>

fun splitRegexFrom :: "(char \<Rightarrow> bool) \<Rightarrow> string \<Rightarrow> bool \<Rightarrow> string \<Rightarrow> string list" where
  "splitRegexFrom sep cur inSep [] = [cur]"
| "splitRegexFrom sep cur inSep (c # cs) =
     (if sep c then
        (if inSep then splitRegexFrom sep cur True cs
         else cur # splitRegexFrom sep [] True cs)
      else splitRegexFrom sep (cur @ [c]) False cs)"

definition splitRegex :: "(char \<Rightarrow> bool) \<Rightarrow> string \<Rightarrow> string list" where
  "splitRegex sep s = splitRegexFrom sep [] False s"

text \<open>\<^verbatim>\<open>s.split(' ')\<close>: the pieces between single separator characters.\<close>

fun splitCharFrom :: "char \<Rightarrow> string \<Rightarrow> string \<Rightarrow> string list" where
  "splitCharFrom sep cur [] = [cur]"
| "splitCharFrom sep cur (c # cs) =
     (if c = sep then cur # splitCharFrom sep [] cs
      else splitCharFrom sep (cur @ [c]) cs)"

definition splitChar :: "char \<Rightarrow> string \<Rightarrow> string list" where
  "splitChar sep s = splitCharFrom sep [] s"

text \<open>\<^verbatim>\<open>words.join(' ')\<close>.\<close>

fun joinWith :: "string \<Rightarrow> string list \<Rightarrow> string" where
  "joinWith sep [] = []"
| "joinWith sep [w] = w"
| "joinWith sep (w # v # ws) = w @ sep @ joinWith sep (v # ws)"

text \<open>
  \<^verbatim>\<open>xs.slice(start, end)\<close> for integer arguments: a negative index counts from the end,
  and both indices are clamped to the array. \<^verbatim>\<open>xs.slice(start)\<close> ends at the length.
\<close>

definition sliceIndex :: "int \<Rightarrow> nat \<Rightarrow> nat" where
  "sliceIndex i len = (if i < 0 then nat (max (int len + i) 0) else min (nat i) len)"

definition slice :: "int \<Rightarrow> int \<Rightarrow> 'a list \<Rightarrow> 'a list" where
  "slice start stop xs =
     (let k = sliceIndex start (length xs); final = sliceIndex stop (length xs)
      in take (final - k) (drop k xs))"

definition sliceFrom :: "int \<Rightarrow> 'a list \<Rightarrow> 'a list" where
  "sliceFrom start xs = drop (sliceIndex start (length xs)) xs"

text \<open>A number in a template literal: the decimal digits of a natural number.\<close>

fun natToString :: "nat \<Rightarrow> string" where
  "natToString n =
     (if n < 10 then [''0123456789'' ! n]
      else natToString (n div 10) @ [''0123456789'' ! (n mod 10)])"

declare natToString.simps [simp del]

text \<open>
  \<^verbatim>\<open>[...new Set(words)]\<close>: a \<^verbatim>\<open>Set\<close> keeps its members in insertion order and ignores a
  value it already holds.
\<close>

definition setAdd :: "'a list \<Rightarrow> 'a \<Rightarrow> 'a list" where
  "setAdd seen w = (if w \<in> set seen then seen else seen @ [w])"

definition uniqueInOrder :: "'a list \<Rightarrow> 'a list" where
  "uniqueInOrder ws = foldl setAdd [] ws"

text \<open>
  A \<^verbatim>\<open>Map\<close> keeps its keys in insertion order; \<^verbatim>\<open>set\<close> on a key it holds replaces the
  value in place, and appends the pair otherwise. \<^verbatim>\<open>size\<close> is the number of pairs.
\<close>

fun mapSet :: "'k \<Rightarrow> 'v \<Rightarrow> ('k \<times> 'v) list \<Rightarrow> ('k \<times> 'v) list" where
  "mapSet k v [] = [(k, v)]"
| "mapSet k v (p # ps) = (if fst p = k then (k, v) # ps else p # mapSet k v ps)"

section \<open>The data model\<close>

text \<open>The \<^verbatim>\<open>metadata\<close> object that \<^verbatim>\<open>processDocument\<close> builds, and the one a chunk
  carries (\<^verbatim>\<open>{...metadata, pageNum, chunkIndex}\<close>).\<close>

record doc_metadata =
  fileName :: string
  fileType :: string
  processedAt :: string

record chunk_metadata = doc_metadata +
  pageNum :: nat
  chunkIndex :: nat

record doc_chunk =
  chunk_id :: string
  content :: string
  metadata :: chunk_metadata

text \<open>A value of the \<^verbatim>\<open>vectorStore\<close> map, keyed by the chunk's id.\<close>

record index_entry =
  chunk :: doc_chunk
  keywords_e :: "string list"
  embedding :: "rat list"

text \<open>An element of the array \<^verbatim>\<open>searchChunks\<close> returns:
  \<^verbatim>\<open>{...entry.chunk, relevance, source}\<close>.\<close>

record search_hit = doc_chunk +
  relevance :: rat
  source :: string

type_synonym vector_store = "(string \<times> index_entry) list"

section \<open>Keyword indexing\<close>

definition stopWords :: "string list" where
  "stopWords = [''the'', ''a'', ''an'', ''and'', ''or'', ''but'', ''in'', ''on'', ''at'', ''to'',
     ''for'', ''of'', ''with'', ''by'', ''is'', ''are'', ''was'', ''were'', ''be'', ''been'',
     ''have'', ''has'', ''had'', ''do'', ''does'', ''did'', ''will'', ''would'', ''could'',
     ''should'', ''may'', ''might'', ''can'', ''this'', ''that'', ''these'', ''those'', ''i'',
     ''you'', ''he'', ''she'', ''it'', ''we'', ''they'', ''me'', ''him'', ''her'', ''us'', ''them'']"

text \<open>\<^verbatim>\<open>extractKeywords(text)\<close>: lower-case, delete \<^verbatim>\<open>/[^\w\s]/g\<close>, split on \<^verbatim>\<open>/\s+/\<close>, keep
  the words longer than 2 that are no stop words, and remove duplicates.\<close>

definition extractKeywords :: "string \<Rightarrow> string list" where
  "extractKeywords text =
     uniqueInOrder
       (filter (\<lambda>word. length word > 2 \<and> word \<notin> set stopWords)
          (splitRegex isWhiteSpace
             (filter (\<lambda>c. isWordChar c \<or> isWhiteSpace c) (toLowerCase text))))"

text \<open>\<^verbatim>\<open>simpleEmbedding(text)\<close>: 1536 numbers, the first ones the tenth of the length of
  the words of the lower-cased text.\<close>

definition simpleEmbedding :: "string \<Rightarrow> rat list" where
  "simpleEmbedding text =
     (let ws = take 1536 (splitRegex isWhiteSpace (toLowerCase text))
      in map (\<lambda>w. of_nat (length w) / 10) ws @ replicate (1536 - length ws) 0)"

definition indexChunk :: "vector_store \<Rightarrow> doc_chunk \<Rightarrow> vector_store" where
  "indexChunk vs c =
     mapSet (chunk_id c)
       \<lparr>chunk = c, keywords_e = extractKeywords (content c),
        embedding = simpleEmbedding (content c)\<rparr> vs"

text \<open>\<^verbatim>\<open>addToVectorStore(chunks)\<close>: the loop over the chunks.\<close>

definition addToVectorStore :: "doc_chunk list \<Rightarrow> vector_store \<Rightarrow> vector_store" where
  "addToVectorStore chunks vs = foldl indexChunk vs chunks"

section \<open>Search\<close>

definition calculateRelevance :: "string list \<Rightarrow> string list \<Rightarrow> rat" where
  "calculateRelevance queryKeywords chunkKeywords =
     of_nat (length (filter (\<lambda>keyword. keyword \<in> set chunkKeywords) queryKeywords))
       / of_nat (max (length queryKeywords) 1)"

definition sourceOf :: "doc_chunk \<Rightarrow> string" where
  "sourceOf c =
     fileName (metadata c) @ '' (Page '' @ natToString (pageNum (metadata c)) @ '')''"

definition hitOf :: "string list \<Rightarrow> index_entry \<Rightarrow> search_hit" where
  "hitOf queryKeywords e =
     \<lparr>chunk_id = chunk_id (chunk e), content = content (chunk e),
      metadata = metadata (chunk e),
      relevance = calculateRelevance queryKeywords (keywords_e e),
      source = sourceOf (chunk e)\<rparr>"

text \<open>The loop of \<^verbatim>\<open>searchChunks\<close> over the entries of the map, in the map's order.\<close>

definition scoredEntries :: "string list \<Rightarrow> vector_store \<Rightarrow> search_hit list" where
  "scoredEntries queryKeywords vs =
     map (hitOf queryKeywords)
       (filter (\<lambda>e. calculateRelevance queryKeywords (keywords_e e) > 0) (map snd vs))"

text \<open>\<^verbatim>\<open>results.sort((a, b) => b.relevance - a.relevance)\<close>: a stable sort, the larger
  relevance first.\<close>

definition sortByRelevance :: "search_hit list \<Rightarrow> search_hit list" where
  "sortByRelevance results = sort_key (\<lambda>r. - relevance r) results"

definition searchChunks :: "vector_store \<Rightarrow> string \<Rightarrow> int \<Rightarrow> search_hit list" where
  "searchChunks vs query topK =
     slice 0 topK (sortByRelevance (scoredEntries (extractKeywords query) vs))"

section \<open>The chunker\<close>

text \<open>The chunk that \<^verbatim>\<open>createChunks\<close> pushes when \<open>n\<close> chunks have been pushed already,
  \<open>currentChunk\<close> is the buffer and \<open>pg\<close> the page counter.\<close>

definition mkChunk :: "doc_metadata \<Rightarrow> nat \<Rightarrow> string \<Rightarrow> nat \<Rightarrow> doc_chunk" where
  "mkChunk md n currentChunk pg =
     \<lparr>chunk_id = fileName md @ ''_chunk_'' @ natToString (n + 1),
      content = trim currentChunk,
      metadata = \<lparr>fileName = fileName md, fileType = fileType md,
                  processedAt = processedAt md, pageNum = pg, chunkIndex = n + 1\<rparr>\<rparr>"

text \<open>The words carried into the next buffer:
  \<^verbatim>\<open>currentChunk.split(' ').slice(-Math.floor(overlap / 5))\<close>.\<close>

definition overlapWords :: "int \<Rightarrow> string \<Rightarrow> string list" where
  "overlapWords overlap currentChunk =
     sliceFrom (- (overlap div 5)) (splitChar CHR '' '' currentChunk)"

text \<open>The state of the loop of \<^verbatim>\<open>createChunks\<close>: \<^verbatim>\<open>chunks\<close>, \<^verbatim>\<open>currentChunk\<close> and
  \<^verbatim>\<open>pageNum\<close>; \<open>chunkStep\<close> is one iteration, on the element \<^verbatim>\<open>sentences[i]\<close>.\<close>

type_synonym chunker_state = "doc_chunk list \<times> string \<times> nat"

definition chunkStep ::
  "doc_metadata \<Rightarrow> int \<Rightarrow> int \<Rightarrow> chunker_state \<Rightarrow> string \<Rightarrow> chunker_state" where
  "chunkStep md chunkSize overlap st raw =
     (case st of (chunks, currentChunk, pg) \<Rightarrow>
        let sentence = trim raw;
            emit = (int (length currentChunk) + int (length sentence) > chunkSize
                    \<and> length currentChunk > 0);
            chunks' = (if emit then chunks @ [mkChunk md (length chunks) currentChunk pg]
                       else chunks);
            currentChunk' =
              (if emit then joinWith '' '' (overlapWords overlap currentChunk) @ '' '' @ sentence
               else currentChunk @ (if currentChunk \<noteq> [] then '' '' else []) @ sentence)
        in (chunks', currentChunk',
            if length (splitChar CHR '' '' currentChunk') > 300 then pg + 1 else pg))"

definition sentencesOf :: "string \<Rightarrow> string list" where
  "sentencesOf text = filter (\<lambda>s. length (trim s) > 0) (splitRegex isTerminator text)"

definition chunkLoop ::
  "doc_metadata \<Rightarrow> int \<Rightarrow> int \<Rightarrow> string list \<Rightarrow> chunker_state" where
  "chunkLoop md chunkSize overlap sentences =
     foldl (chunkStep md chunkSize overlap) ([], [], 1) sentences"

definition createChunks :: "string \<Rightarrow> doc_metadata \<Rightarrow> int \<Rightarrow> int \<Rightarrow> doc_chunk list" where
  "createChunks text md chunkSize overlap =
     (case chunkLoop md chunkSize overlap (sentencesOf text) of
        (chunks, currentChunk, pg) \<Rightarrow>
          if trim currentChunk \<noteq> [] then chunks @ [mkChunk md (length chunks) currentChunk pg]
          else chunks)"

section \<open>The document store and the ingestion pipeline\<close>

text \<open>An element of \<^verbatim>\<open>this.documents\<close>: \<^verbatim>\<open>{fileName, chunks, content}\<close>.\<close>

record doc_record =
  doc_fileName :: string
  doc_chunks :: nat
  doc_content :: string

record processor =
  vectorStore :: vector_store
  documents :: "doc_record list"
  isInitialized :: bool

definition newProcessor :: processor where
  "newProcessor = \<lparr>vectorStore = [], documents = [], isInitialized = False\<rparr>"

record stats =
  totalDocuments :: nat
  totalChunks :: nat
  documentStats :: "(string \<times> nat) list"

definition getStats :: "processor \<Rightarrow> stats" where
  "getStats p =
     \<lparr>totalDocuments = length (documents p), totalChunks = length (vectorStore p),
      documentStats = map (\<lambda>doc. (doc_fileName doc, doc_chunks doc)) (documents p)\<rparr>"

text \<open>
  \<^verbatim>\<open>processDocument({fileName, content})\<close>; \<open>now\<close> is what \<^verbatim>\<open>new Date().toISOString()\<close>
  gives at the call. \<^verbatim>\<open>createChunks\<close> is called with its default sizes.
\<close>

definition processDocument :: "string \<Rightarrow> string \<times> string \<Rightarrow> processor \<Rightarrow> processor" where
  "processDocument now doc p =
     (case doc of (name, text) \<Rightarrow>
        let md = \<lparr>fileName = name, fileType = last (splitChar CHR ''.'' name),
                  processedAt = now\<rparr>
        in if trim text \<noteq> [] then
             let chunks = createChunks text md 500 100
             in p\<lparr>vectorStore := addToVectorStore chunks (vectorStore p),
                  documents := documents p @
                    [\<lparr>doc_fileName = name, doc_chunks = length chunks,
                      doc_content = take 200 text @ ''...''\<rparr>]\<rparr>
           else p)"

text \<open>
  What the code throws: an \<^verbatim>\<open>Error\<close> object with its message; another value that is
  neither \<^verbatim>\<open>null\<close> nor \<^verbatim>\<open>undefined\<close> and has no \<^verbatim>\<open>message\<close>; or \<^verbatim>\<open>null\<close> or \<^verbatim>\<open>undefined\<close>. The
  result of an operation that can throw or reject is a sum, \<open>Inl\<close> the thrown value.
\<close>

datatype thrown = ErrorObject string | OtherValue | Nullish

type_synonym 'a outcome = "thrown + 'a"

text \<open>\<^verbatim>\<open>error.message\<close> in a template literal. Reading the property of \<^verbatim>\<open>null\<close> or
  \<^verbatim>\<open>undefined\<close> throws a \<^verbatim>\<open>TypeError\<close>.\<close>

fun messageOf :: "thrown \<Rightarrow> string outcome" where
  "messageOf (ErrorObject m) = Inr m"
| "messageOf OtherValue = Inr ''undefined''"
| "messageOf Nullish = Inl (ErrorObject ''Cannot read properties of undefined'')"

text \<open>
  A \<^verbatim>\<open>Blob\<close> or \<^verbatim>\<open>File\<close> as the extraction sees it: its \<^verbatim>\<open>name\<close> (undefined on a fetched
  blob), what \<^verbatim>\<open>file.text()\<close> resolves to, and what the Word extraction of
  \<^verbatim>\<open>extractWordText\<close> (the import of the library, \<^verbatim>\<open>arrayBuffer()\<close>, \<^verbatim>\<open>extractRawText\<close>,
  \<^verbatim>\<open>result.value\<close>) resolves to.
\<close>

record blob_file =
  file_name :: "string option"
  file_text :: "string outcome"
  file_word :: "string outcome"

text \<open>\<^verbatim>\<open>extractWordText(file)\<close>. Its \<^verbatim>\<open>catch\<close> builds the message from \<^verbatim>\<open>error.message\<close>,
  which throws in its turn when the thrown value is \<^verbatim>\<open>null\<close> or \<^verbatim>\<open>undefined\<close>.\<close>

definition extractWordText :: "blob_file \<Rightarrow> string outcome" where
  "extractWordText file =
     (case file_word file of
        Inr v \<Rightarrow> Inr v
      | Inl error \<Rightarrow>
          (case messageOf error of
             Inl typeError \<Rightarrow> Inl typeError
           | Inr m \<Rightarrow> Inr (''[Error extracting text from Word document: '' @ m @ '']'')))"

definition extractPDFText :: "blob_file \<Rightarrow> string outcome" where
  "extractPDFText file =
     Inr (''[PDF content from '' @ (case file_name file of None \<Rightarrow> ''undefined'' | Some n \<Rightarrow> n)
          @ '' - PDF processing will be implemented soon]'')"

definition extractTextFile :: "blob_file \<Rightarrow> string outcome" where
  "extractTextFile file = file_text file"

text \<open>\<^verbatim>\<open>extractTextFromFile(file, fileName)\<close> with a string \<open>name\<close>; \<open>None\<close> is \<^verbatim>\<open>null\<close>.\<close>

definition extractTextFromFile :: "blob_file \<Rightarrow> string \<Rightarrow> string option" where
  "extractTextFromFile file name =
     (let ft = toLowerCase (last (splitChar CHR ''.'' name));
          extracted =
            (if ft = ''pdf'' then map_sum id Some (extractPDFText file)
             else if ft = ''docx'' \<or> ft = ''doc'' then map_sum id Some (extractWordText file)
             else if ft = ''txt'' then map_sum id Some (extractTextFile file)
             else Inr None)
      in case extracted of Inl error \<Rightarrow> None | Inr r \<Rightarrow> r)"

text \<open>
  The world of \<^verbatim>\<open>loadAssetsDocuments\<close>: the answer to the request for the manifest
  (\<^verbatim>\<open>response.ok\<close>, and \<^verbatim>\<open>response.json()\<close> with \<open>None\<close> for a value that is no array), and
  the answer to the request for each file name (\<^verbatim>\<open>response.ok\<close> and \<^verbatim>\<open>response.blob()\<close>).
  The names of the manifest are strings.
\<close>

record manifest_response =
  manifest_ok :: bool
  manifest_json :: "string list option outcome"

record asset_response =
  asset_ok :: bool
  asset_blob :: "blob_file outcome"

record environment =
  fetchManifest :: "manifest_response outcome"
  fetchAsset :: "string \<Rightarrow> asset_response outcome"

definition discoverFilesInAssets :: "environment \<Rightarrow> string list" where
  "discoverFilesInAssets env =
     (case fetchManifest env of
        Inl error \<Rightarrow> []
      | Inr response \<Rightarrow>
          if \<not> manifest_ok response then []
          else (case manifest_json response of
                  Inl error \<Rightarrow> []
                | Inr None \<Rightarrow> []
                | Inr (Some fileList) \<Rightarrow> fileList))"

text \<open>
  The lines that the loop of \<^verbatim>\<open>loadAssetsDocuments\<close> writes with \<^verbatim>\<open>console.log\<close>, by the
  call that writes them: \<^verbatim>\<open>Processing: <name>\<close> (the size of the blob is left out),
  \<^verbatim>\<open>Successfully processed: <name> (<n> characters)\<close>, \<^verbatim>\<open>No content extracted from: <name>\<close>
  and \<^verbatim>\<open>Error processing <name>: <message>\<close>.
\<close>

datatype log_line =
    LogProcessing string
  | LogSuccess string nat
  | LogNoContent string
  | LogError string string

text \<open>The body of the \<^verbatim>\<open>try\<close> inside the loop of \<^verbatim>\<open>loadAssetsDocuments\<close>: the document
  to push, if any, and the lines written. A response that is not ok writes nothing.\<close>

definition loadAsset ::
  "environment \<Rightarrow> string \<Rightarrow> ((string \<times> string) option \<times> log_line list) outcome" where
  "loadAsset env name =
     (case fetchAsset env name of
        Inl error \<Rightarrow> Inl error
      | Inr response \<Rightarrow>
          if asset_ok response then
            (case asset_blob response of
               Inl error \<Rightarrow> Inl error
             | Inr file \<Rightarrow>
                 (case extractTextFromFile file name of
                    None \<Rightarrow> Inr (None, [LogProcessing name, LogNoContent name])
                  | Some text \<Rightarrow>
                      if text \<noteq> [] \<and> length (trim text) > 0 then
                        Inr (Some (name, text),
                             [LogProcessing name, LogSuccess name (length text)])
                      else Inr (None, [LogProcessing name, LogNoContent name])))
          else Inr (None, []))"

text \<open>
  One iteration, with its \<^verbatim>\<open>catch\<close>: the documents pushed and the lines written so far.
  The \<^verbatim>\<open>catch\<close> writes \<^verbatim>\<open>error.message\<close>; when reading it throws, the iteration throws.
\<close>

type_synonym load_state = "(string \<times> string) list \<times> log_line list"

definition loadStep :: "environment \<Rightarrow> load_state \<Rightarrow> string \<Rightarrow> load_state outcome" where
  "loadStep env st name =
     (case st of (docs, lines) \<Rightarrow>
        (case loadAsset env name of
           Inl error \<Rightarrow>
             (case messageOf error of
                Inl typeError \<Rightarrow> Inl typeError
              | Inr m \<Rightarrow> Inr (docs, lines @ [LogError name m]))
         | Inr (doc, written) \<Rightarrow>
             Inr ((case doc of None \<Rightarrow> docs | Some d \<Rightarrow> docs @ [d]), lines @ written)))"

text \<open>
  The loop inside the outer \<^verbatim>\<open>try\<close>. An iteration that throws ends the loop: the outer
  \<^verbatim>\<open>catch\<close> takes the error, and the function returns the documents pushed so far.
\<close>

fun loadLoop :: "environment \<Rightarrow> load_state \<Rightarrow> string list \<Rightarrow> load_state" where
  "loadLoop env st [] = st"
| "loadLoop env st (name # names) =
     (case loadStep env st name of
        Inl error \<Rightarrow> st
      | Inr st' \<Rightarrow> loadLoop env st' names)"

definition loadAssetsDocuments ::
  "environment \<Rightarrow> processor \<Rightarrow> (string \<times> string) list \<times> processor" where
  "loadAssetsDocuments env p =
     (fst (loadLoop env ([], []) (discoverFilesInAssets env)),
      p\<lparr>documents := [], vectorStore := []\<rparr>)"

text \<open>The lines of the loop in a call of \<^verbatim>\<open>loadAssetsDocuments\<close>.\<close>

definition loadLog :: "environment \<Rightarrow> log_line list" where
  "loadLog env = snd (loadLoop env ([], []) (discoverFilesInAssets env))"

text \<open>The loop over the loaded documents; \<open>clock i\<close> is the time at which the document
  at index \<open>i\<close> of the batch is processed.\<close>

definition processAll ::
  "(nat \<Rightarrow> string) \<Rightarrow> (string \<times> string) list \<Rightarrow> processor \<Rightarrow> processor" where
  "processAll clock docs p =
     foldl (\<lambda>q (i, doc). processDocument (clock i) doc q) p (enumerate 0 docs)"

text \<open>\<^verbatim>\<open>DocumentProcessor.initialize()\<close>.\<close>

definition initialize ::
  "environment \<Rightarrow> (nat \<Rightarrow> string) \<Rightarrow> processor \<Rightarrow> stats \<times> processor" where
  "initialize env clock p =
     (if isInitialized p then (getStats p, p)
      else
        (case loadAssetsDocuments env p of (assetsDocuments, p1) \<Rightarrow>
           let p2 = (if length assetsDocuments > 0 then processAll clock assetsDocuments p1
                     else p1);
               p3 = p2\<lparr>isInitialized := True\<rparr>
           in (getStats p3, p3)))"

text \<open>One iteration of the loop of \<^verbatim>\<open>processUploadedFiles\<close>. A file without a name makes
  \<^verbatim>\<open>fileName.split\<close> throw, which the \<^verbatim>\<open>catch\<close> of the loop logs.\<close>

definition uploadStep :: "(nat \<Rightarrow> string) \<Rightarrow> processor \<Rightarrow> nat \<times> blob_file \<Rightarrow> processor" where
  "uploadStep clock p item =
     (case item of (i, file) \<Rightarrow>
        (case file_name file of
           None \<Rightarrow> p
         | Some name \<Rightarrow>
             (case extractTextFromFile file name of
                None \<Rightarrow> p
              | Some text \<Rightarrow>
                  if text \<noteq> [] then processDocument (clock i) (name, text) p else p)))"

definition processUploadedFiles ::
  "(nat \<Rightarrow> string) \<Rightarrow> blob_file list \<Rightarrow> processor \<Rightarrow> stats \<times> processor" where
  "processUploadedFiles clock files p =
     (let p' = foldl (uploadStep clock) p (enumerate 0 files) in (getStats p', p'))"

section \<open>The service and the tool handler\<close>

text \<open>
  A value that reaches \<^verbatim>\<open>searchChunks\<close> as \<^verbatim>\<open>query\<close> at run time: a string, or a value of
  another kind (the argument is absent from the tool call, or is no string), on which
  \<^verbatim>\<open>text.toLowerCase()\<close> throws a \<^verbatim>\<open>TypeError\<close> with the message carried here.
\<close>

datatype js_value = JsString string | JsOther string

definition searchChunksOn :: "vector_store \<Rightarrow> js_value \<Rightarrow> int \<Rightarrow> search_hit list outcome" where
  "searchChunksOn vs query topK =
     (case query of
        JsOther msg \<Rightarrow> Inl (ErrorObject msg)
      | JsString q \<Rightarrow> Inr (searchChunks vs q topK))"

record result_metadata =
  res_fileName :: string
  res_pageNum :: nat
  res_chunkIndex :: nat

record rag_result =
  res_content :: string
  res_source :: string
  res_relevance :: rat
  res_metadata :: result_metadata

record rag_service =
  documentProcessor :: processor
  ragInitialized :: bool
  ragStats :: "stats option"

definition newService :: rag_service where
  "newService = \<lparr>documentProcessor = newProcessor, ragInitialized = False, ragStats = None\<rparr>"

text \<open>\<^verbatim>\<open>RAGService.initialize()\<close>. Its \<^verbatim>\<open>catch\<close> throws the error again; nothing in its
  \<^verbatim>\<open>try\<close> throws, since \<^verbatim>\<open>DocumentProcessor.initialize\<close> catches every error itself.\<close>

definition ragInitialize ::
  "environment \<Rightarrow> (nat \<Rightarrow> string) \<Rightarrow> rag_service \<Rightarrow> stats option \<times> rag_service" where
  "ragInitialize env clock r =
     (if ragInitialized r then (ragStats r, r)
      else
        (case initialize env clock (documentProcessor r) of (s, p) \<Rightarrow>
           (Some (getStats p),
            r\<lparr>documentProcessor := p, ragStats := Some (getStats p), ragInitialized := True\<rparr>)))"

definition toRagResult :: "search_hit \<Rightarrow> rag_result" where
  "toRagResult h =
     \<lparr>res_content = content h, res_source = source h, res_relevance = relevance h,
      res_metadata = \<lparr>res_fileName = fileName (metadata h), res_pageNum = pageNum (metadata h),
                      res_chunkIndex = chunkIndex (metadata h)\<rparr>\<rparr>"

text \<open>\<^verbatim>\<open>RAGService.searchDocuments(query, topK)\<close>: the result or the thrown value, and the
  service after the call.\<close>

definition searchDocuments ::
  "environment \<Rightarrow> (nat \<Rightarrow> string) \<Rightarrow> rag_service \<Rightarrow> js_value \<Rightarrow> int
     \<Rightarrow> rag_result list outcome \<times> rag_service" where
  "searchDocuments env clock r query topK =
     (let r' = (if \<not> ragInitialized r then snd (ragInitialize env clock r) else r)
      in (map_sum id (map toRagResult)
            (searchChunksOn (vectorStore (documentProcessor r')) query topK), r'))"

text \<open>The three objects the handler of the tool \<^verbatim>\<open>search_documents\<close> returns.\<close>

datatype tool_response =
    NoResults (r_message: string) (r_query: js_value)
  | Success (r_message: string) (r_query: js_value) (total_results: nat)
      (document_content: string) (sources: "string list") (summary: string)
  | Failure (r_error: string) (r_message: string)

fun status :: "tool_response \<Rightarrow> string" where
  "status (NoResults m q) = ''no_results''"
| "status (Success m q n d srcs sm) = ''success''"
| "status (Failure e m) = ''error''"

definition formatResult :: "nat \<times> rag_result \<Rightarrow> string" where
  "formatResult item =
     (case item of (index, result) \<Rightarrow>
        ''Result '' @ natToString (index + 1) @ '' ('' @ res_source result @ ''):''
          @ [CHR 0x0A] @ res_content result)"

definition truncateTo :: "nat \<Rightarrow> string \<Rightarrow> string" where
  "truncateTo n s = (if length s > n then take n s @ ''...'' else s)"

text \<open>The handler after the \<^verbatim>\<open>await\<close> of the search: \<open>res\<close> is what the search gave, a
  thrown value going to the \<^verbatim>\<open>catch\<close>.\<close>

definition respond :: "js_value \<Rightarrow> rag_result list outcome \<Rightarrow> tool_response" where
  "respond query res =
     (case res of
        Inl error \<Rightarrow>
          Failure ''Failed to search documents''
            (case error of ErrorObject m \<Rightarrow> m | _ \<Rightarrow> ''Unknown error'')
      | Inr results \<Rightarrow>
          if length results = 0 then
            NoResults ''No relevant documents found for your query.'' query
          else
            let formattedResults =
                  joinWith [CHR 0x0A, CHR 0x0A] (map formatResult (enumerate 0 results))
            in Success (''Found '' @ natToString (length results)
                          @ '' relevant document chunks for your query.'')
                 query (length results) (truncateTo 2000 formattedResults)
                 (map res_source results) (truncateTo 400 formattedResults))"

text \<open>The handler: \<^verbatim>\<open>async ({ query, top_k = 5 }) => ...\<close> on the module's service.\<close>

definition search_documents ::
  "environment \<Rightarrow> (nat \<Rightarrow> string) \<Rightarrow> rag_service \<Rightarrow> js_value \<Rightarrow> int option
     \<Rightarrow> tool_response \<times> rag_service" where
  "search_documents env clock r query top_k =
     (case searchDocuments env clock r query (case top_k of None \<Rightarrow> 5 | Some k \<Rightarrow> k) of
        (res, r') \<Rightarrow> (respond query res, r'))"

section \<open>The chunker as the specification words it\<close>

text \<open>
  The second description of the chunker, written from the specification and not from the
  code: the fragments between sentence terminators, without those empty after trimming;
  a buffer that is emitted when it is non-empty and the next sentence would take it past
  \<open>chunkSize\<close> (the lengths of the buffer and of the sentence, added, exceed it); a new buffer seeded with the last \<open>floor (overlap / 5)\<close> words of the
  emitted one, then the sentence; the last non-empty buffer emitted at the end.
\<close>

fun specFragmentsFrom :: "string \<Rightarrow> string \<Rightarrow> string list" where
  "specFragmentsFrom cur [] = [cur]"
| "specFragmentsFrom cur (c # cs) =
     (if isTerminator c then cur # specFragmentsFrom [] cs
      else specFragmentsFrom (cur @ [c]) cs)"

definition specSentences :: "string \<Rightarrow> string list" where
  "specSentences text =
     map trim (filter (\<lambda>f. trim f \<noteq> []) (specFragmentsFrom [] text))"

definition lastWords :: "nat \<Rightarrow> string \<Rightarrow> string list" where
  "lastWords n buffer =
     (let ws = splitChar CHR '' '' buffer in drop (length ws - n) ws)"

fun specAccumulate :: "int \<Rightarrow> int \<Rightarrow> string \<Rightarrow> string list \<Rightarrow> string list" where
  "specAccumulate chunkSize overlap buffer [] = (if buffer \<noteq> [] then [buffer] else [])"
| "specAccumulate chunkSize overlap buffer (s # rest) =
     (if buffer \<noteq> [] \<and> int (length buffer + length s) > chunkSize then
        buffer # specAccumulate chunkSize overlap
                   (joinWith '' '' (lastWords (nat (overlap div 5)) buffer) @ '' '' @ s) rest
      else specAccumulate chunkSize overlap
             (if buffer = [] then s else buffer @ '' '' @ s) rest)"

definition specChunks :: "int \<Rightarrow> int \<Rightarrow> string \<Rightarrow> string list" where
  "specChunks chunkSize overlap text =
     map trim (specAccumulate chunkSize overlap [] (specSentences text))"

section \<open>The words of a text as the specification words them\<close>

text \<open>
  A second description of the tokens, written from the specification and not from the
  code: \<open>w\<close> is a word of \<open>s\<close> when it is a run of characters of \<open>s\<close> without white space,
  not empty, that is not part of a longer one (it starts the text or follows a white
  space, and ends the text or precedes one).
\<close>

definition wordOf :: "string \<Rightarrow> string \<Rightarrow> bool" where
  "wordOf s w \<longleftrightarrow>
     w \<noteq> [] \<and> list_all (\<lambda>c. \<not> isWhiteSpace c) w
     \<and> (\<exists>a r. s = a @ w @ r \<and> (a = [] \<or> isWhiteSpace (last a)) \<and> (r = [] \<or> isWhiteSpace (hd r)))"

section \<open>Stores and example data\<close>

text \<open>The store after a sequence of calls of \<^verbatim>\<open>addToVectorStore\<close> on the empty map.\<close>

definition storeAfter :: "doc_chunk list list \<Rightarrow> vector_store" where
  "storeAfter batches = foldl (\<lambda>vs chunks. addToVectorStore chunks vs) [] batches"

text \<open>What indexing maintains: the keys of the map are distinct, every key is the id of
  its chunk, and the keywords of an entry are those of its chunk's content.\<close>

definition indexed :: "vector_store \<Rightarrow> bool" where
  "indexed vs \<longleftrightarrow>
     distinct (map fst vs) \<and>
     list_all (\<lambda>p. fst p = chunk_id (chunk (snd p)) \<and>
                   keywords_e (snd p) = extractKeywords (content (chunk (snd p)))) vs"

text \<open>Two small documents, their chunks, and the store that indexing them gives.\<close>

definition exampleDocs :: "(string \<times> string) list" where
  "exampleDocs =
     [(''policy.txt'', ''Reset your password. Use the portal.''),
      (''vpn.txt'', ''Install the client! Open the portal and enter your password.'')]"

definition exampleClock :: "nat \<Rightarrow> string" where
  "exampleClock i = ''2024-01-01T00:00:0'' @ natToString i @ ''.000Z''"

definition exampleBatches :: "doc_chunk list list" where
  "exampleBatches =
     map (\<lambda>(i, name, text).
            createChunks text
              \<lparr>fileName = name, fileType = last (splitChar CHR ''.'' name),
               processedAt = exampleClock i\<rparr> 500 100)
         (enumerate 0 exampleDocs)"

definition exampleStore :: vector_store where
  "exampleStore = storeAfter exampleBatches"

section \<open>Invariants of the chunker\<close>

text \<open>The buffer of the chunker is empty or holds a character that is no white space.\<close>

definition bufferOk :: "string \<Rightarrow> bool" where
  "bufferOk cur \<longleftrightarrow> cur = [] \<or> trim cur \<noteq> []"

text \<open>The chunk at index \<open>i\<close> of a document: its id, its ordinal, its file name, and a
  content that is not empty, also after trimming.\<close>

definition chunkOk :: "doc_metadata \<Rightarrow> nat \<Rightarrow> doc_chunk \<Rightarrow> bool" where
  "chunkOk md i c \<longleftrightarrow>
     chunk_id c = fileName md @ ''_chunk_'' @ natToString (i + 1)
     \<and> chunkIndex (metadata c) = i + 1
     \<and> fileName (metadata c) = fileName md
     \<and> content c \<noteq> [] \<and> trim (content c) \<noteq> []"

definition chunksOk :: "doc_metadata \<Rightarrow> doc_chunk list \<Rightarrow> bool" where
  "chunksOk md cs \<longleftrightarrow> list_all (\<lambda>(i, c). chunkOk md i c) (enumerate 0 cs)"

text \<open>The pages of the chunks pushed so far are in order, at least 1, and at most the
  page counter.\<close>

definition pagesOk :: "doc_chunk list \<Rightarrow> nat \<Rightarrow> bool" where
  "pagesOk chunks pg \<longleftrightarrow>
     sorted (map (\<lambda>c. pageNum (metadata c)) chunks)
     \<and> list_all (\<lambda>c. 1 \<le> pageNum (metadata c) \<and> pageNum (metadata c) \<le> pg) chunks
     \<and> 1 \<le> pg"

text \<open>More example data: a document and the world in which it is the one asset, and a
  text whose second sentence has 301 words.\<close>

definition policyMetadata :: doc_metadata where
  "policyMetadata =
     \<lparr>fileName = ''policy.txt'', fileType = ''txt'', processedAt = ''2024-01-01T00:00:00.000Z''\<rparr>"

definition fetchedText :: "string \<Rightarrow> asset_response" where
  "fetchedText t =
     \<lparr>asset_ok = True,
      asset_blob = Inr \<lparr>file_name = None, file_text = Inr t,
                        file_word = Inl (ErrorObject ''Could not find the document'')\<rparr>\<rparr>"

definition policyEnv :: environment where
  "policyEnv =
     \<lparr>fetchManifest = Inr \<lparr>manifest_ok = True, manifest_json = Inr (Some [''policy.txt''])\<rparr>,
      fetchAsset = (\<lambda>name. if name = ''policy.txt''
                      then Inr (fetchedText ''Reset your password. Use the portal.'')
                      else Inl (ErrorObject ''Failed to fetch''))\<rparr>"

definition longText :: string where
  "longText = ''Short start. '' @ concat (replicate 301 ''w '') @ ''end.''"

section \<open>Ingestion: what is loaded, and example worlds\<close>

text \<open>The file names of the manifest for which the \<^verbatim>\<open>try\<close> of \<^verbatim>\<open>loadAssetsDocuments\<close>
  pushes a document.\<close>

definition loaded :: "environment \<Rightarrow> string \<Rightarrow> bool" where
  "loaded env name =
     (case loadAsset env name of Inr (Some doc, written) \<Rightarrow> True | _ \<Rightarrow> False)"

text \<open>The request for the file, or \<^verbatim>\<open>blob()\<close> on its response, rejects with \<^verbatim>\<open>null\<close> or
  \<^verbatim>\<open>undefined\<close>.\<close>

definition rejectsNullish :: "environment \<Rightarrow> string \<Rightarrow> bool" where
  "rejectsNullish env name =
     (case fetchAsset env name of
        Inl error \<Rightarrow> error = Nullish
      | Inr response \<Rightarrow> asset_ok response \<and> asset_blob response = Inl Nullish)"

text \<open>The response for the file is not ok.\<close>

definition notOk :: "environment \<Rightarrow> string \<Rightarrow> bool" where
  "notOk env name =
     (case fetchAsset env name of Inl error \<Rightarrow> False | Inr response \<Rightarrow> \<not> asset_ok response)"

text \<open>Every chunk of the store belongs to a file of the set \<open>S\<close>.\<close>

definition storeOf :: "string set \<Rightarrow> vector_store \<Rightarrow> bool" where
  "storeOf S vs \<longleftrightarrow> list_all (\<lambda>e. fileName (metadata (chunk (snd e))) \<in> S) vs"

text \<open>A world with five names in the manifest: a text file whose \<^verbatim>\<open>text()\<close> rejects, a
  good one, one that holds white space only, one with an unsupported extension, and one
  whose request fails. A world with a Word file whose extraction throws. A world whose
  manifest cannot be fetched.\<close>

definition mixedEnv :: environment where
  "mixedEnv =
     \<lparr>fetchManifest = Inr \<lparr>manifest_ok = True,
        manifest_json = Inr (Some [''broken.txt'', ''policy.txt'', ''blank.txt'', ''logo.png'',
                                   ''gone.txt''])\<rparr>,
      fetchAsset = (\<lambda>name.
        if name = ''broken.txt'' then
          Inr \<lparr>asset_ok = True,
               asset_blob = Inr \<lparr>file_name = None, file_text = Inl (ErrorObject ''read failed''),
                                 file_word = Inl (ErrorObject ''Could not find the document'')\<rparr>\<rparr>
        else if name = ''policy.txt'' then
          Inr (fetchedText ''Reset your password. Use the portal.'')
        else if name = ''blank.txt'' then Inr (fetchedText ''   '')
        else if name = ''logo.png'' then Inr (fetchedText ''PNG'')
        else Inl (ErrorObject ''Failed to fetch''))\<rparr>"

definition brokenWordFile :: blob_file where
  "brokenWordFile =
     \<lparr>file_name = None, file_text = Inr ''PK'', file_word = Inl (ErrorObject ''Corrupted zip'')\<rparr>"

definition wordEnv :: environment where
  "wordEnv =
     \<lparr>fetchManifest = Inr \<lparr>manifest_ok = True,
        manifest_json = Inr (Some [''report.docx'', ''policy.txt''])\<rparr>,
      fetchAsset = (\<lambda>name.
        if name = ''report.docx'' then Inr \<lparr>asset_ok = True, asset_blob = Inr brokenWordFile\<rparr>
        else if name = ''policy.txt'' then
          Inr (fetchedText ''Reset your password. Use the portal.'')
        else Inl (ErrorObject ''Failed to fetch''))\<rparr>"

text \<open>A world in which the request for the second of three files rejects with
  \<^verbatim>\<open>undefined\<close>.\<close>

definition nullishEnv :: environment where
  "nullishEnv =
     \<lparr>fetchManifest = Inr \<lparr>manifest_ok = True,
        manifest_json = Inr (Some [''policy.txt'', ''gone.txt'', ''vpn.txt''])\<rparr>,
      fetchAsset = (\<lambda>name.
        if name = ''policy.txt'' then
          Inr (fetchedText ''Reset your password. Use the portal.'')
        else if name = ''vpn.txt'' then
          Inr (fetchedText ''Install the client! Open the portal and enter your password.'')
        else Inl Nullish)\<rparr>"

definition emptyEnv :: environment where
  "emptyEnv =
     \<lparr>fetchManifest = Inl (ErrorObject ''Failed to fetch''),
      fetchAsset = (\<lambda>name. Inl (ErrorObject ''Failed to fetch''))\<rparr>"

section \<open>Properties of the search\<close>

subsection \<open>Slices and the ranking\<close>

lemma sliceIndex_nonneg: "0 \<le> i \<Longrightarrow> sliceIndex i len = min (nat i) len"
  by (simp add: sliceIndex_def)

lemma slice_zero_take: "0 \<le> k \<Longrightarrow> slice 0 k xs = take (nat k) xs"
  by (simp add: slice_def sliceIndex_def min_def)

lemma slice_zero_neg: "k < 0 \<Longrightarrow> slice 0 k xs = take (length xs - nat (- k)) xs"
  by (auto simp add: slice_def sliceIndex_def Let_def max_def intro!: arg_cong2[where f=take])

lemma set_sortByRelevance: "set (sortByRelevance hs) = set hs"
  by (simp add: sortByRelevance_def)

lemma length_sortByRelevance: "length (sortByRelevance hs) = length hs"
  by (simp add: sortByRelevance_def)

lemma sorted_sortByRelevance:
  "sorted_wrt (\<lambda>a b. relevance b \<le> relevance a) (sortByRelevance hs)"
proof -
  have "sorted (map (\<lambda>r. - relevance r) (sortByRelevance hs))"
    by (simp add: sortByRelevance_def)
  then show ?thesis
    by (simp add: sorted_wrt_map)
qed

lemma length_scoredEntries:
  "length (scoredEntries qk vs) =
     length (filter (\<lambda>e. calculateRelevance qk (keywords_e e) > 0) (map snd vs))"
  by (simp add: scoredEntries_def)

lemma scoredEntries_hit:
  "h \<in> set (scoredEntries qk vs) \<Longrightarrow>
     \<exists>p \<in> set vs. h = hitOf qk (snd p) \<and> calculateRelevance qk (keywords_e (snd p)) > 0"
  by (auto simp add: scoredEntries_def)

lemma relevance_hitOf: "relevance (hitOf qk e) = calculateRelevance qk (keywords_e e)"
  by (simp add: hitOf_def)

lemma exampleStore_ids: "map fst exampleStore = [''policy.txt_chunk_1'', ''vpn.txt_chunk_1'']"
  by code_simp

lemma exampleStore_contents:
  "map (\<lambda>p. content (chunk (snd p))) exampleStore =
     [''Reset your password Use the portal'',
      ''Install the client Open the portal and enter your password'']"
  by code_simp




lemma searchChunks_all:
  assumes "int (length vs) \<le> K"
  shows "searchChunks vs q K = sortByRelevance (scoredEntries (extractKeywords q) vs)"
proof -
  let ?all = "sortByRelevance (scoredEntries (extractKeywords q) vs)"
  have "length ?all \<le> length (map snd vs)"
    unfolding length_sortByRelevance length_scoredEntries by (rule length_filter_le)
  then have "length ?all \<le> nat K"
    using assms by simp
  then have "take (nat K) ?all = ?all"
    by simp
  moreover have "0 \<le> K"
    using assms by linarith
  ultimately show ?thesis
    by (simp add: searchChunks_def slice_zero_take)
qed

lemma set_slice: "set (slice i j xs) \<subseteq> set xs"
  unfolding slice_def Let_def by (meson in_set_dropD in_set_takeD subsetI)

lemma sorted_wrt_slice: "sorted_wrt P xs \<Longrightarrow> sorted_wrt P (slice i j xs)"
  unfolding slice_def Let_def by (intro sorted_wrt_take sorted_wrt_drop)

lemma ranked_results:
  "sorted_wrt (\<lambda>a b. relevance b \<le> relevance a) (searchChunks vs q K)
   \<and> (\<forall>h \<in> set (searchChunks vs q K).
         0 < relevance h \<and> (\<exists>p \<in> set vs. h = hitOf (extractKeywords q) (snd p)))"
proof -
  let ?all = "sortByRelevance (scoredEntries (extractKeywords q) vs)"
  have "sorted_wrt (\<lambda>a b. relevance b \<le> relevance a) (searchChunks vs q K)"
    unfolding searchChunks_def by (rule sorted_wrt_slice [OF sorted_sortByRelevance])
  moreover have "0 < relevance h \<and> (\<exists>p \<in> set vs. h = hitOf (extractKeywords q) (snd p))"
    if "h \<in> set (searchChunks vs q K)" for h
  proof -
    have "h \<in> set ?all"
      using that unfolding searchChunks_def by (rule subsetD [OF set_slice])
    then have "h \<in> set (scoredEntries (extractKeywords q) vs)"
      by (simp add: set_sortByRelevance)
    then obtain p where "p \<in> set vs" "h = hitOf (extractKeywords q) (snd p)"
        "0 < calculateRelevance (extractKeywords q) (keywords_e (snd p))"
      using scoredEntries_hit by blast
    then show ?thesis
      by (auto simp add: relevance_hitOf)
  qed
  ultimately show ?thesis by blast
qed

lemma example_ranking_differs:
  "map (\<lambda>h. (chunk_id h, relevance h)) (searchChunks exampleStore ''portal client'' 2) =
     [(''vpn.txt_chunk_1'', 1), (''policy.txt_chunk_1'', 1 / 2)]"
  by code_simp

text \<open>
  C10. With \<open>topK = 0\<close> the search returns the empty array. With a negative \<open>topK\<close> it
  returns the full result of the search (what a \<open>topK\<close> of the size of the store gives:
  the hits of all entries with a positive relevance, in non-increasing order of
  relevance) without its last \<open>|topK|\<close> hits, as \<^verbatim>\<open>slice(0, topK)\<close> does; \<open>topK\<close> is not
  raised to 1. Whatever \<open>topK\<close> is, the hits returned are ranked and have a positive
  relevance.
\<close>

theorem searchChunks_nonpositive_topK:
  "searchChunks vs q 0 = []
   \<and> (K < 0 \<longrightarrow>
        searchChunks vs q K =
          take (length (searchChunks vs q (int (length vs))) - nat (- K))
            (searchChunks vs q (int (length vs))))
   \<and> sorted_wrt (\<lambda>a b. relevance b \<le> relevance a) (searchChunks vs q (int (length vs)))
   \<and> (\<forall>h \<in> set (searchChunks vs q (int (length vs))).
         0 < relevance h \<and> (\<exists>p \<in> set vs. h = hitOf (extractKeywords q) (snd p)))
   \<and> length (searchChunks vs q (int (length vs))) =
       length (filter (\<lambda>e. 0 < calculateRelevance (extractKeywords q) (keywords_e e)) (map snd vs))
   \<and> sorted_wrt (\<lambda>a b. relevance b \<le> relevance a) (searchChunks vs q K)
   \<and> (\<forall>h \<in> set (searchChunks vs q K). 0 < relevance h)"
proof -
  have all: "searchChunks vs q (int (length vs)) =
             sortByRelevance (scoredEntries (extractKeywords q) vs)"
    by (rule searchChunks_all) simp
  have zero: "searchChunks vs q 0 = []"
    by (simp add: searchChunks_def slice_zero_take)
  have neg: "searchChunks vs q K =
          take (length (searchChunks vs q (int (length vs))) - nat (- K))
            (searchChunks vs q (int (length vs)))" if "K < 0"
    unfolding all using that by (simp add: searchChunks_def slice_zero_neg)
  have len: "length (searchChunks vs q (int (length vs))) =
       length (filter (\<lambda>e. 0 < calculateRelevance (extractKeywords q) (keywords_e e)) (map snd vs))"
    unfolding all by (simp add: length_sortByRelevance length_scoredEntries)
  show ?thesis
    using zero neg len ranked_results [of vs q "int (length vs)"] ranked_results [of vs q K]
    by blast
qed

theorem searchChunks_nonpositive_topK_witness:
  "(- 1 :: int) < 0
   \<and> map fst exampleStore = [''policy.txt_chunk_1'', ''vpn.txt_chunk_1'']
   \<and> map (\<lambda>h. (chunk_id h, relevance h)) (searchChunks exampleStore ''portal client'' 2) =
       [(''vpn.txt_chunk_1'', 1), (''policy.txt_chunk_1'', 1 / 2)]
   \<and> map chunk_id (searchChunks exampleStore ''portal client'' (- 1)) = [''vpn.txt_chunk_1'']
   \<and> searchChunks exampleStore ''portal client'' 0 = []"
proof -
  let ?all = "searchChunks exampleStore ''portal client'' 2"
  have two: "int (length exampleStore) = 2"
    using arg_cong [OF exampleStore_ids, of length] by simp
  have ids: "map chunk_id ?all = [''vpn.txt_chunk_1'', ''policy.txt_chunk_1'']"
    using arg_cong [OF example_ranking_differs, of "map fst"] by (simp add: comp_def)
  then have len: "length ?all = 2"
    using length_map [of chunk_id ?all] by simp
  note r = searchChunks_nonpositive_topK [of exampleStore "''portal client''" "- 1"]
  have "searchChunks exampleStore ''portal client'' (- 1) = take (length ?all - nat (- (- 1))) ?all"
    using r unfolding two by simp
  then have "map chunk_id (searchChunks exampleStore ''portal client'' (- 1)) =
             take 1 (map chunk_id ?all)"
    unfolding len by (simp add: take_map)
  then have one: "map chunk_id (searchChunks exampleStore ''portal client'' (- 1)) =
             [''vpn.txt_chunk_1'']"
    unfolding ids by simp
  have zero: "searchChunks exampleStore ''portal client'' 0 = []"
    using r by blast
  show ?thesis
    using exampleStore_ids example_ranking_differs one zero by simp
qed

section \<open>Properties of the index\<close>

subsection \<open>The map\<close>

lemma map_fst_mapSet:
  "map fst (mapSet k v ps) = (if k \<in> fst ` set ps then map fst ps else map fst ps @ [k])"
  by (induction ps) auto

lemma length_mapSet:
  "length (mapSet k v ps) = (if k \<in> fst ` set ps then length ps else Suc (length ps))"
  by (induction ps) auto

lemma map_of_mapSet: "map_of (mapSet k v ps) = (map_of ps)(k \<mapsto> v)"
  by (induction ps) (auto simp add: fun_eq_iff)

lemma distinct_mapSet: "distinct (map fst ps) \<Longrightarrow> distinct (map fst (mapSet k v ps))"
  by (simp add: map_fst_mapSet)

lemma set_mapSet: "set (mapSet k v ps) \<subseteq> insert (k, v) (set ps)"
  by (induction ps) auto

lemma filter_key_distinct:
  "distinct (map fst ps) \<Longrightarrow> k \<in> fst ` set ps \<Longrightarrow> length (filter (\<lambda>p. fst p = k) ps) = 1"
proof (induction ps)
  case Nil
  then show ?case by simp
next
  case (Cons p ps)
  show ?case
  proof (cases "fst p = k")
    case True
    with Cons.prems have "k \<notin> fst ` set ps"
      by simp
    then have "filter (\<lambda>p. fst p = k) ps = []"
      unfolding filter_empty_conv by (metis imageI)
    with True show ?thesis by simp
  next
    case False
    with Cons show ?thesis by auto
  qed
qed

lemma distinct_addToVectorStore:
  "distinct (map fst vs) \<Longrightarrow> distinct (map fst (addToVectorStore chunks vs))"
  unfolding addToVectorStore_def
  by (induction chunks arbitrary: vs) (simp_all add: indexChunk_def distinct_mapSet)

lemma example_reindexed:
  "map (\<lambda>p. (fst p, content (chunk (snd p)), keywords_e (snd p)))
     (addToVectorStore
        [\<lparr>chunk_id = ''policy.txt_chunk_1'', content = ''Ask the help desk'',
          metadata = \<lparr>fileName = ''policy.txt'', fileType = ''txt'', processedAt = ''later'',
                      pageNum = 1, chunkIndex = 1\<rparr>\<rparr>] exampleStore) =
     [(''policy.txt_chunk_1'', ''Ask the help desk'', [''ask'', ''help'', ''desk'']),
      (''vpn.txt_chunk_1'', ''Install the client Open the portal and enter your password'',
       [''install'', ''client'', ''open'', ''portal'', ''enter'', ''your'', ''password''])]"
  by code_simp

text \<open>
  C7. Indexing a chunk whose id already has an entry replaces that entry in place: the
  map has as many entries as before and the same keys, exactly one entry has that id, it
  holds the new chunk with the keywords (and the vector) of the new content, and the
  entries of the other ids are unchanged.
\<close>

theorem addToVectorStore_overwrites:
  assumes "distinct (map fst vs)" and "chunk_id c \<in> fst ` set vs"
  shows "length (addToVectorStore [c] vs) = length vs
         \<and> map fst (addToVectorStore [c] vs) = map fst vs
         \<and> length (filter (\<lambda>p. fst p = chunk_id c) (addToVectorStore [c] vs)) = 1
         \<and> map_of (addToVectorStore [c] vs) (chunk_id c) =
             Some \<lparr>chunk = c, keywords_e = extractKeywords (content c),
                   embedding = simpleEmbedding (content c)\<rparr>
         \<and> (\<forall>k. k \<noteq> chunk_id c \<longrightarrow> map_of (addToVectorStore [c] vs) k = map_of vs k)"
proof -
  let ?e = "\<lparr>chunk = c, keywords_e = extractKeywords (content c),
             embedding = simpleEmbedding (content c)\<rparr>"
  have eq: "addToVectorStore [c] vs = mapSet (chunk_id c) ?e vs"
    by (simp add: addToVectorStore_def indexChunk_def)
  have keys: "map fst (mapSet (chunk_id c) ?e vs) = map fst vs"
    using assms(2) by (simp add: map_fst_mapSet)
  have "distinct (map fst (mapSet (chunk_id c) ?e vs))"
    using assms(1) by (rule distinct_mapSet)
  moreover have "chunk_id c \<in> fst ` set (mapSet (chunk_id c) ?e vs)"
    using assms(2) keys by (metis list.set_map)
  ultimately have one: "length (filter (\<lambda>p. fst p = chunk_id c) (mapSet (chunk_id c) ?e vs)) = 1"
    by (rule filter_key_distinct)
  show ?thesis
    unfolding eq using assms(2) keys one
    by (simp add: length_mapSet map_of_mapSet)
qed

theorem addToVectorStore_overwrites_witness:
  "distinct (map fst exampleStore)
   \<and> ''policy.txt_chunk_1'' \<in> fst ` set exampleStore
   \<and> length (addToVectorStore
        [\<lparr>chunk_id = ''policy.txt_chunk_1'', content = ''Ask the help desk'',
          metadata = \<lparr>fileName = ''policy.txt'', fileType = ''txt'', processedAt = ''later'',
                      pageNum = 1, chunkIndex = 1\<rparr>\<rparr>] exampleStore) = 2
   \<and> length (filter (\<lambda>p. fst p = ''policy.txt_chunk_1'')
        (addToVectorStore
          [\<lparr>chunk_id = ''policy.txt_chunk_1'', content = ''Ask the help desk'',
            metadata = \<lparr>fileName = ''policy.txt'', fileType = ''txt'', processedAt = ''later'',
                        pageNum = 1, chunkIndex = 1\<rparr>\<rparr>] exampleStore)) = 1"
proof -
  define c where "c = \<lparr>chunk_id = ''policy.txt_chunk_1'', content = ''Ask the help desk'',
            metadata = \<lparr>fileName = ''policy.txt'', fileType = ''txt'', processedAt = ''later'',
                        pageNum = 1, chunkIndex = 1\<rparr>\<rparr>"
  have cid: "chunk_id c = ''policy.txt_chunk_1''"
    by (simp add: c_def)
  have d: "distinct (map fst exampleStore)"
    unfolding exampleStore_ids by simp
  have "''policy.txt_chunk_1'' \<in> set (map fst exampleStore)"
    unfolding exampleStore_ids by simp
  then have m: "''policy.txt_chunk_1'' \<in> fst ` set exampleStore"
    by simp
  have l: "length exampleStore = 2"
    using arg_cong [OF exampleStore_ids, of length] by simp
  have m': "chunk_id c \<in> fst ` set exampleStore"
    unfolding cid by (rule m)
  note r = addToVectorStore_overwrites [OF d m']
  have a: "length (addToVectorStore [c] exampleStore) = 2"
    using r l by metis
  have b: "length (filter (\<lambda>p. fst p = ''policy.txt_chunk_1'')
             (addToVectorStore [c] exampleStore)) = 1"
    using r unfolding cid by blast
  show ?thesis
    using d m a b unfolding c_def by blast
qed

subsection \<open>Keywords\<close>

lemma foldl_setAdd:
  "distinct acc \<Longrightarrow>
     distinct (foldl setAdd acc ws) \<and> set (foldl setAdd acc ws) = set acc \<union> set ws"
  by (induction ws arbitrary: acc) (auto simp add: setAdd_def)

lemma distinct_uniqueInOrder: "distinct (uniqueInOrder ws)"
  using foldl_setAdd [of "[]" ws] by (simp add: uniqueInOrder_def)

lemma set_uniqueInOrder: "set (uniqueInOrder ws) = set ws"
  using foldl_setAdd [of "[]" ws] by (simp add: uniqueInOrder_def)

lemma distinct_extractKeywords: "distinct (extractKeywords t)"
  by (simp add: extractKeywords_def distinct_uniqueInOrder)

lemma extractKeywords_word:
  "w \<in> set (extractKeywords t) \<Longrightarrow> 2 < length w \<and> w \<notin> set stopWords"
  by (simp add: extractKeywords_def set_uniqueInOrder)

lemma splitRegexFrom_piece:
  "p \<in> set (splitRegexFrom sep cur b s) \<Longrightarrow> c \<in> set p \<Longrightarrow>
     c \<in> set cur \<or> (c \<in> set s \<and> \<not> sep c)"
proof (induction s arbitrary: cur b)
  case Nil
  then show ?case by simp
next
  case (Cons x xs)
  then show ?case
    by (fastforce split: if_splits)
qed

lemma lower_upper_disjoint: "set lowerChars \<inter> set upperChars = {}"
  by code_simp

lemma toLowerChar_not_upper: "toLowerChar c \<notin> set upperChars"
proof (cases "map_of (zip upperChars lowerChars) c")
  case None
  have "length upperChars = length lowerChars"
    by (simp add: upperChars_def lowerChars_def)
  then have "c \<notin> set upperChars"
    using None by simp
  then show ?thesis
    using None by (simp add: toLowerChar_def)
next
  case (Some d)
  then have "d \<in> set lowerChars"
    by (meson map_of_SomeD set_zip_rightD)
  then show ?thesis
    using Some lower_upper_disjoint by (auto simp add: toLowerChar_def)
qed

lemma extractKeywords_chars:
  assumes "w \<in> set (extractKeywords t)" "c \<in> set w"
  shows "isWordChar c \<and> c \<notin> set upperChars"
proof -
  let ?s = "filter (\<lambda>c. isWordChar c \<or> isWhiteSpace c) (toLowerCase t)"
  have "w \<in> set (splitRegexFrom isWhiteSpace [] False ?s)"
    using assms(1) by (simp add: extractKeywords_def set_uniqueInOrder splitRegex_def)
  then have "c \<in> set ?s \<and> \<not> isWhiteSpace c"
    using splitRegexFrom_piece assms(2) by fastforce
  then show ?thesis
    using toLowerChar_not_upper by (auto simp add: toLowerCase_def)
qed

lemma calculateRelevance_card:
  assumes "distinct qk"
  shows "calculateRelevance qk ck =
           of_nat (card (set qk \<inter> set ck)) / of_nat (max (card (set qk)) 1)"
proof -
  have "distinct (filter (\<lambda>k. k \<in> set ck) qk)"
    using assms by simp
  then have "length (filter (\<lambda>k. k \<in> set ck) qk) = card (set (filter (\<lambda>k. k \<in> set ck) qk))"
    by (rule distinct_card [symmetric])
  moreover have "set (filter (\<lambda>k. k \<in> set ck) qk) = set qk \<inter> set ck"
    by auto
  moreover have "length qk = card (set qk)"
    using assms by (simp add: distinct_card)
  ultimately show ?thesis
    by (simp add: calculateRelevance_def)
qed

lemma calculateRelevance_bounds:
  "0 \<le> calculateRelevance qk ck \<and> calculateRelevance qk ck \<le> 1"
proof -
  have "length (filter (\<lambda>k. k \<in> set ck) qk) \<le> max (length qk) 1"
    using length_filter_le [of "\<lambda>k. k \<in> set ck" qk] by linarith
  then have "(of_nat (length (filter (\<lambda>k. k \<in> set ck) qk)) :: rat)
               \<le> of_nat (max (length qk) 1)"
    using of_nat_le_iff by blast
  moreover have "(0::rat) < of_nat (max (length qk) 1)"
    by simp
  ultimately show ?thesis
    unfolding calculateRelevance_def by (simp add: divide_le_eq_1)
qed

lemma calculateRelevance_disjoint:
  "set qk \<inter> set ck = {} \<Longrightarrow> calculateRelevance qk ck = 0"
proof -
  assume "set qk \<inter> set ck = {}"
  then have "filter (\<lambda>k. k \<in> set ck) qk = []"
    by (auto simp add: filter_empty_conv)
  then show ?thesis
    by (simp add: calculateRelevance_def)
qed

subsection \<open>Stores built by indexing\<close>

lemma indexed_indexChunk: "indexed vs \<Longrightarrow> indexed (indexChunk vs c)"
proof -
  assume a: "indexed vs"
  let ?e = "\<lparr>chunk = c, keywords_e = extractKeywords (content c),
             embedding = simpleEmbedding (content c)\<rparr>"
  have "set (indexChunk vs c) \<subseteq> insert (chunk_id c, ?e) (set vs)"
    unfolding indexChunk_def by (rule set_mapSet)
  then show ?thesis
    using a unfolding indexed_def list_all_iff
    by (auto simp add: indexChunk_def distinct_mapSet)
qed

lemma indexed_addToVectorStore: "indexed vs \<Longrightarrow> indexed (addToVectorStore chunks vs)"
  unfolding addToVectorStore_def
  by (induction chunks arbitrary: vs) (simp_all add: indexed_indexChunk)

lemma indexed_foldl:
  "indexed vs \<Longrightarrow> indexed (foldl (\<lambda>vs chunks. addToVectorStore chunks vs) vs batches)"
  by (induction batches arbitrary: vs) (simp_all add: indexed_addToVectorStore)

lemma indexed_storeAfter: "indexed (storeAfter batches)"
  unfolding storeAfter_def by (rule indexed_foldl) (simp add: indexed_def)

lemma exampleStore_first:
  "(''policy.txt_chunk_1'', snd (hd exampleStore)) \<in> set exampleStore"
proof -
  have ne: "exampleStore \<noteq> []"
    using exampleStore_ids by auto
  then have "fst (hd exampleStore) = hd (map fst exampleStore)"
    by (simp add: hd_map)
  then have "fst (hd exampleStore) = ''policy.txt_chunk_1''"
    unfolding exampleStore_ids by simp
  then have "hd exampleStore = (''policy.txt_chunk_1'', snd (hd exampleStore))"
    by (metis prod.collapse)
  then show ?thesis
    using hd_in_set [OF ne] by metis
qed

lemma example_disjoint:
  "set (extractKeywords ''Where is the cafeteria?'')
     \<inter> set (extractKeywords (content (chunk (snd (hd exampleStore))))) = {}"
  by code_simp

subsection \<open>Which words are keywords\<close>

lemma split_pieces_are_runs:
  assumes "\<forall>c \<in> set cur. \<not> sep c" "pre = [] \<or> sep (last pre)" "b \<longrightarrow> cur = []"
    and "p \<in> set (splitRegexFrom sep cur b s)" "p \<noteq> []"
  shows "(\<forall>c \<in> set p. \<not> sep c)
         \<and> (\<exists>a r. pre @ cur @ s = a @ p @ r \<and> (a = [] \<or> sep (last a)) \<and> (r = [] \<or> sep (hd r)))"
  using assms
proof (induction s arbitrary: pre cur b)
  case Nil
  then have "p = cur" by simp
  then show ?case
    using Nil.prems(1,2) by (intro conjI exI [of _ pre] exI [of _ "[]"]) auto
next
  case (Cons c cs)
  show ?case
  proof (cases "sep c")
    case True
    show ?thesis
    proof (cases "p = cur \<and> \<not> b")
      case True
      have "pre @ cur @ c # cs = pre @ p @ (c # cs)" using True by simp
      then show ?thesis
        using True \<open>sep c\<close> Cons.prems(1,2) by (metis list.sel(1))
    next
      case False
      then have in_rest: "p \<in> set (splitRegexFrom sep [] True cs)"
        using Cons.prems(3,4) \<open>sep c\<close> by (auto split: if_splits)
      have "(\<forall>x \<in> set p. \<not> sep x)
         \<and> (\<exists>a r. (pre @ cur @ [c]) @ [] @ cs = a @ p @ r \<and> (a = [] \<or> sep (last a))
               \<and> (r = [] \<or> sep (hd r)))"
        by (rule Cons.IH [OF _ _ _ in_rest Cons.prems(5)]) (simp_all add: \<open>sep c\<close>)
      then show ?thesis by simp
    qed
  next
    case False
    then have in_rest: "p \<in> set (splitRegexFrom sep (cur @ [c]) False cs)"
      using Cons.prems(4) by simp
    have "(\<forall>x \<in> set p. \<not> sep x)
         \<and> (\<exists>a r. pre @ (cur @ [c]) @ cs = a @ p @ r \<and> (a = [] \<or> sep (last a))
               \<and> (r = [] \<or> sep (hd r)))"
      by (rule Cons.IH [OF _ Cons.prems(2) _ in_rest Cons.prems(5)])
        (use False Cons.prems(1) in auto)
    then show ?thesis by simp
  qed
qed

lemma run_at_start_is_piece:
  assumes "\<forall>c \<in> set w. \<not> sep c" "w \<noteq> [] \<or> \<not> b" "r = [] \<or> sep (hd r)"
  shows "cur @ w \<in> set (splitRegexFrom sep cur b (w @ r))"
  using assms
proof (induction w arbitrary: cur b)
  case Nil
  then show ?case by (cases r) auto
next
  case (Cons x xs)
  have "(cur @ [x]) @ xs \<in> set (splitRegexFrom sep (cur @ [x]) False (xs @ r))"
    by (rule Cons.IH) (use Cons.prems in auto)
  then show ?case using Cons.prems(1) by simp
qed

lemma run_after_separator_is_piece:
  assumes "sep d" "w \<noteq> []" "\<forall>c \<in> set w. \<not> sep c" "r = [] \<or> sep (hd r)" "b \<longrightarrow> cur = []"
  shows "w \<in> set (splitRegexFrom sep cur b (a @ d # w @ r))"
  using assms(5)
proof (induction a arbitrary: cur b)
  case Nil
  have "[] @ w \<in> set (splitRegexFrom sep [] True (w @ r))"
    by (rule run_at_start_is_piece) (use assms in auto)
  then show ?case using assms(1) Nil by auto
next
  case (Cons x xs)
  show ?case
  proof (cases "sep x")
    case True
    have "w \<in> set (splitRegexFrom sep [] True (xs @ d # w @ r))"
      by (rule Cons.IH) simp
    then show ?thesis using True Cons.prems by auto
  next
    case False
    have "w \<in> set (splitRegexFrom sep (cur @ [x]) False (xs @ d # w @ r))"
      by (rule Cons.IH) simp
    then show ?thesis using False by simp
  qed
qed

lemma wordOf_split: "wordOf s w \<longleftrightarrow> w \<noteq> [] \<and> w \<in> set (splitRegex isWhiteSpace s)"
proof
  assume "wordOf s w"
  then obtain a r where w: "w \<noteq> []" "\<forall>c \<in> set w. \<not> isWhiteSpace c"
    and s: "s = a @ w @ r" and a: "a = [] \<or> isWhiteSpace (last a)"
    and r: "r = [] \<or> isWhiteSpace (hd r)"
    unfolding wordOf_def list_all_iff by blast
  show "w \<noteq> [] \<and> w \<in> set (splitRegex isWhiteSpace s)"
  proof (cases "a = []")
    case True
    have "[] @ w \<in> set (splitRegexFrom isWhiteSpace [] False (w @ r))"
      by (rule run_at_start_is_piece) (use w r in auto)
    then show ?thesis using True s w(1) by (simp add: splitRegex_def)
  next
    case False
    then obtain a' d where ad: "a = a' @ [d]" "isWhiteSpace d"
      using a by (metis append_butlast_last_id)
    have "w \<in> set (splitRegexFrom isWhiteSpace [] False (a' @ d # w @ r))"
      by (rule run_after_separator_is_piece) (use ad w r in auto)
    then show ?thesis using ad s w(1) by (simp add: splitRegex_def)
  qed
next
  assume a: "w \<noteq> [] \<and> w \<in> set (splitRegex isWhiteSpace s)"
  have "(\<forall>c \<in> set w. \<not> isWhiteSpace c)
         \<and> (\<exists>a r. [] @ [] @ s = a @ w @ r \<and> (a = [] \<or> isWhiteSpace (last a))
               \<and> (r = [] \<or> isWhiteSpace (hd r)))"
    by (rule split_pieces_are_runs [where b = False]) (use a in \<open>auto simp add: splitRegex_def\<close>)
  then show "wordOf s w"
    using a by (simp add: wordOf_def list_all_iff)
qed

lemma extractKeywords_set:
  "set (extractKeywords t) =
     {w. wordOf (filter (\<lambda>c. isWordChar c \<or> isWhiteSpace c) (toLowerCase t)) w
         \<and> 2 < length w \<and> w \<notin> set stopWords}"
  by (auto simp add: extractKeywords_def set_uniqueInOrder wordOf_split)

lemma toLowerCase_letters:
  "toLowerCase upperChars = lowerChars \<and> toLowerCase lowerChars = lowerChars"
  by code_simp

lemma toLowerChar_other: "c \<notin> set upperChars \<Longrightarrow> toLowerChar c = c"
proof -
  assume "c \<notin> set upperChars"
  moreover have "length upperChars = length lowerChars"
    by (simp add: upperChars_def lowerChars_def)
  ultimately have "map_of (zip upperChars lowerChars) c = None"
    by simp
  then show ?thesis by (simp add: toLowerChar_def)
qed

lemma calculateRelevance_overlap:
  assumes "set qk \<inter> set ck \<noteq> {}"
  shows "0 < calculateRelevance qk ck"
proof -
  obtain k where "k \<in> set qk" "k \<in> set ck"
    using assms by blast
  then have "k \<in> set (filter (\<lambda>k. k \<in> set ck) qk)"
    by simp
  then have "filter (\<lambda>k. k \<in> set ck) qk \<noteq> []"
    by (metis empty_iff empty_set)
  then have "(0::rat) < of_nat (length (filter (\<lambda>k. k \<in> set ck) qk))"
    by simp
  moreover have "(0::rat) < of_nat (max (length qk) 1)"
    by simp
  ultimately show ?thesis
    unfolding calculateRelevance_def by (rule divide_pos_pos)
qed

lemma hit_in_results:
  assumes "(k, e) \<in> set vs" "int (length vs) \<le> K"
    and "0 < calculateRelevance (extractKeywords q) (keywords_e e)"
  shows "hitOf (extractKeywords q) e \<in> set (searchChunks vs q K)"
proof -
  have "e \<in> set (map snd vs)"
    using assms(1) by force
  then have "hitOf (extractKeywords q) e \<in> set (scoredEntries (extractKeywords q) vs)"
    using assms(3) by (simp add: scoredEntries_def)
  then show ?thesis
    unfolding searchChunks_all [OF assms(2)] by (simp add: set_sortByRelevance)
qed

lemma example_overlap:
  "set (extractKeywords ''reset password, please'')
     \<inter> set (extractKeywords (content (chunk (snd (hd exampleStore))))) \<noteq> {}
   \<and> (of_nat (card (set (extractKeywords ''reset password, please'')
                     \<inter> set (extractKeywords (content (chunk (snd (hd exampleStore)))))))
        / of_nat (max (card (set (extractKeywords ''reset password, please''))) 1) :: rat) = 2 / 3"
  by code_simp

lemma example_keywords:
  "extractKeywords ''Reset your password. Use the portal.'' =
     [''reset'', ''your'', ''password'', ''use'', ''portal'']"
  by code_simp

text \<open>
  C2. For every entry of a store built by indexing and every query, the keywords of the
  entry are those that \<^verbatim>\<open>extractKeywords\<close> (the function that tokenizes the query) gives
  for the chunk's content; the relevance is the number of common keywords over the
  number of query keywords (at least 1), and lies between 0 and 1; the keywords of
  either side are distinct, longer than 2, no stop words, and made of word characters
  that are not upper case; a chunk whose keywords are disjoint from the query's is not
  among the results, and one that shares a keyword is, when \<open>topK\<close> is at least the size
  of the store. The keywords of any text are exactly the words (\<^const>\<open>wordOf\<close>) of the
  lower-cased text without its characters that are neither word characters nor white
  space, that are longer than 2 and no stop words; lower-casing maps each upper-case
  letter to its lower-case form and leaves every other character as it is.
\<close>

theorem relevance_is_keyword_overlap:
  assumes "(k, e) \<in> set (storeAfter batches)"
  shows "keywords_e e = extractKeywords (content (chunk e))
         \<and> calculateRelevance (extractKeywords q) (keywords_e e) =
             of_nat (card (set (extractKeywords q) \<inter> set (extractKeywords (content (chunk e)))))
               / of_nat (max (card (set (extractKeywords q))) 1)
         \<and> 0 \<le> calculateRelevance (extractKeywords q) (keywords_e e)
         \<and> calculateRelevance (extractKeywords q) (keywords_e e) \<le> 1
         \<and> distinct (extractKeywords q) \<and> distinct (keywords_e e)
         \<and> (\<forall>w \<in> set (extractKeywords q) \<union> set (keywords_e e).
               2 < length w \<and> w \<notin> set stopWords
               \<and> (\<forall>c \<in> set w. isWordChar c \<and> c \<notin> set upperChars))
         \<and> (set (extractKeywords q) \<inter> set (extractKeywords (content (chunk e))) = {} \<longrightarrow>
               (\<forall>h \<in> set (searchChunks (storeAfter batches) q K). chunk_id h \<noteq> chunk_id (chunk e)))
         \<and> (set (extractKeywords q) \<inter> set (extractKeywords (content (chunk e))) \<noteq> {}
              \<and> int (length (storeAfter batches)) \<le> K \<longrightarrow>
               hitOf (extractKeywords q) e \<in> set (searchChunks (storeAfter batches) q K))
         \<and> set (extractKeywords t) =
             {w. wordOf (filter (\<lambda>c. isWordChar c \<or> isWhiteSpace c) (toLowerCase t)) w
                 \<and> 2 < length w \<and> w \<notin> set stopWords}
         \<and> toLowerCase upperChars = lowerChars
         \<and> (c \<notin> set upperChars \<longrightarrow> toLowerChar c = c)"
proof -
  let ?vs = "storeAfter batches" and ?qk = "extractKeywords q"
  have inv: "indexed ?vs" by (rule indexed_storeAfter)
  have kw: "keywords_e e = extractKeywords (content (chunk e))" and key: "k = chunk_id (chunk e)"
    using inv assms unfolding indexed_def list_all_iff by auto
  have rel: "calculateRelevance ?qk (keywords_e e) =
             of_nat (card (set ?qk \<inter> set (extractKeywords (content (chunk e)))))
               / of_nat (max (card (set ?qk)) 1)"
    unfolding kw by (rule calculateRelevance_card [OF distinct_extractKeywords])
  have words: "\<forall>w \<in> set ?qk \<union> set (keywords_e e).
      2 < length w \<and> w \<notin> set stopWords
      \<and> (\<forall>c \<in> set w. isWordChar c \<and> c \<notin> set upperChars)"
    unfolding kw using extractKeywords_word extractKeywords_chars by blast
  have dist: "distinct ?qk \<and> distinct (keywords_e e)"
    unfolding kw using distinct_extractKeywords by blast
  have absent: "\<forall>h \<in> set (searchChunks ?vs q K). chunk_id h \<noteq> chunk_id (chunk e)"
    if disj: "set ?qk \<inter> set (extractKeywords (content (chunk e))) = {}"
  proof
    fix h assume "h \<in> set (searchChunks ?vs q K)"
    then have "h \<in> set (sortByRelevance (scoredEntries ?qk ?vs))"
      unfolding searchChunks_def slice_def Let_def
      by (meson in_set_dropD in_set_takeD)
    then have "h \<in> set (scoredEntries ?qk ?vs)"
      by (simp add: sortByRelevance_def)
    then obtain p where p: "p \<in> set ?vs" "h = hitOf ?qk (snd p)"
        "0 < calculateRelevance ?qk (keywords_e (snd p))"
      by (auto simp add: scoredEntries_def)
    show "chunk_id h \<noteq> chunk_id (chunk e)"
    proof
      assume same: "chunk_id h = chunk_id (chunk e)"
      have "fst p = chunk_id (chunk (snd p))"
        using inv p(1) unfolding indexed_def list_all_iff by auto
      then have "fst p = k"
        using same p(2) key by (simp add: hitOf_def)
      moreover have "distinct (map fst ?vs)"
        using inv by (simp add: indexed_def)
      ultimately have "snd p = e"
        using p(1) assms by (metis eq_key_imp_eq_value prod.collapse)
      then have "0 < calculateRelevance ?qk (keywords_e e)"
        using p(3) by simp
      moreover have "calculateRelevance ?qk (keywords_e e) = 0"
        unfolding kw by (rule calculateRelevance_disjoint [OF disj])
      ultimately show False by simp
    qed
  qed
  have present: "hitOf ?qk e \<in> set (searchChunks ?vs q K)"
    if "set ?qk \<inter> set (extractKeywords (content (chunk e))) \<noteq> {}" "int (length ?vs) \<le> K"
  proof -
    have "0 < calculateRelevance ?qk (keywords_e e)"
      unfolding kw using that(1) by (rule calculateRelevance_overlap)
    then show ?thesis
      by (rule hit_in_results [OF assms that(2)])
  qed
  have first: "keywords_e e = extractKeywords (content (chunk e))
         \<and> calculateRelevance ?qk (keywords_e e) =
             of_nat (card (set ?qk \<inter> set (extractKeywords (content (chunk e)))))
               / of_nat (max (card (set ?qk)) 1)
         \<and> 0 \<le> calculateRelevance ?qk (keywords_e e)
         \<and> calculateRelevance ?qk (keywords_e e) \<le> 1"
    using kw rel calculateRelevance_bounds by blast
  show ?thesis
    using first dist words absent present extractKeywords_set [of t] toLowerCase_letters
      toLowerChar_other [of c]
    by blast
qed

theorem relevance_is_keyword_overlap_witness:
  "(''policy.txt_chunk_1'', snd (hd exampleStore)) \<in> set (storeAfter exampleBatches)
   \<and> calculateRelevance (extractKeywords ''reset password, please'')
        (keywords_e (snd (hd exampleStore))) = 2 / 3
   \<and> hitOf (extractKeywords ''reset password, please'') (snd (hd exampleStore))
        \<in> set (searchChunks (storeAfter exampleBatches) ''reset password, please'' 5)
   \<and> calculateRelevance (extractKeywords ''Where is the cafeteria?'')
        (keywords_e (snd (hd exampleStore))) = 0
   \<and> list_all (\<lambda>h. chunk_id h \<noteq> chunk_id (chunk (snd (hd exampleStore))))
        (searchChunks (storeAfter exampleBatches) ''Where is the cafeteria?'' 5)
   \<and> {w. wordOf (filter (\<lambda>c. isWordChar c \<or> isWhiteSpace c)
                     (toLowerCase ''Reset your password. Use the portal.'')) w
          \<and> 2 < length w \<and> w \<notin> set stopWords} =
       set [''reset'', ''your'', ''password'', ''use'', ''portal'']"
proof -
  have m: "(''policy.txt_chunk_1'', snd (hd exampleStore)) \<in> set (storeAfter exampleBatches)"
    using exampleStore_first unfolding exampleStore_def .
  have len: "int (length (storeAfter exampleBatches)) \<le> 5"
    using arg_cong [OF exampleStore_ids, of length] by (simp add: exampleStore_def)
  note hit = relevance_is_keyword_overlap [OF m, of "''reset password, please''" 5
      "''Reset your password. Use the portal.''"]
  note miss = relevance_is_keyword_overlap [OF m, of "''Where is the cafeteria?''" 5]
  have pos: "calculateRelevance (extractKeywords ''reset password, please'')
        (keywords_e (snd (hd exampleStore))) = 2 / 3"
    using hit example_overlap by metis
  have found: "hitOf (extractKeywords ''reset password, please'') (snd (hd exampleStore))
        \<in> set (searchChunks (storeAfter exampleBatches) ''reset password, please'' 5)"
    using hit example_overlap len by blast
  have kw: "keywords_e (snd (hd exampleStore)) =
              extractKeywords (content (chunk (snd (hd exampleStore))))"
    using miss by blast
  have z: "calculateRelevance (extractKeywords ''Where is the cafeteria?'')
             (keywords_e (snd (hd exampleStore))) = 0"
    unfolding kw by (rule calculateRelevance_disjoint [OF example_disjoint])
  have "\<forall>h \<in> set (searchChunks (storeAfter exampleBatches) ''Where is the cafeteria?'' 5).
          chunk_id h \<noteq> chunk_id (chunk (snd (hd exampleStore)))"
    using miss example_disjoint by blast
  then have gone: "list_all (\<lambda>h. chunk_id h \<noteq> chunk_id (chunk (snd (hd exampleStore))))
        (searchChunks (storeAfter exampleBatches) ''Where is the cafeteria?'' 5)"
    unfolding list_all_iff .
  have words: "{w. wordOf (filter (\<lambda>c. isWordChar c \<or> isWhiteSpace c)
                     (toLowerCase ''Reset your password. Use the portal.'')) w
          \<and> 2 < length w \<and> w \<notin> set stopWords} =
       set [''reset'', ''your'', ''password'', ''use'', ''portal'']"
    using hit example_keywords by metis
  show ?thesis
    using m pos found z gone words by blast
qed

section \<open>Properties of the chunker\<close>

subsection \<open>Trimming\<close>

lemma dropWhile_all_iff: "(\<forall>c \<in> set (dropWhile P s). P c) \<longleftrightarrow> (\<forall>c \<in> set s. P c)"
proof
  assume a: "\<forall>c \<in> set (dropWhile P s). P c"
  have "dropWhile P s = []"
  proof (rule ccontr)
    assume ne: "dropWhile P s \<noteq> []"
    then have "\<not> P (hd (dropWhile P s))" by (rule hd_dropWhile)
    moreover have "hd (dropWhile P s) \<in> set (dropWhile P s)" using ne by simp
    ultimately show False using a by blast
  qed
  then show "\<forall>c \<in> set s. P c" by simp
next
  assume "\<forall>c \<in> set s. P c"
  then show "\<forall>c \<in> set (dropWhile P s). P c" by (meson set_dropWhileD)
qed

lemma trim_eq_Nil: "trim s = [] \<longleftrightarrow> (\<forall>c \<in> set s. isWhiteSpace c)"
proof -
  have "trim s = [] \<longleftrightarrow> (\<forall>c \<in> set (rev (dropWhile isWhiteSpace s)). isWhiteSpace c)"
    by (simp add: trim_def)
  also have "\<dots> \<longleftrightarrow> (\<forall>c \<in> set (dropWhile isWhiteSpace s). isWhiteSpace c)"
    by simp
  also have "\<dots> \<longleftrightarrow> (\<forall>c \<in> set s. isWhiteSpace c)"
    by (rule dropWhile_all_iff)
  finally show ?thesis .
qed

lemma trim_trim_ne: "trim s \<noteq> [] \<Longrightarrow> trim (trim s) \<noteq> []"
proof -
  assume ne: "trim s \<noteq> []"
  let ?d = "dropWhile isWhiteSpace (rev (dropWhile isWhiteSpace s))"
  have d: "?d \<noteq> []" using ne by (simp add: trim_def)
  then have "\<not> isWhiteSpace (hd ?d)" by (rule hd_dropWhile)
  moreover have "hd ?d \<in> set (trim s)" using d by (simp add: trim_def)
  ultimately show ?thesis using trim_eq_Nil by blast
qed

lemma trim_append_ne: "trim s \<noteq> [] \<Longrightarrow> trim (a @ s) \<noteq> []"
  using trim_eq_Nil by auto

lemma trim_Nil: "trim [] = []"
  by (simp add: trim_def)

subsection \<open>Splitting\<close>

lemma splitRegexFrom_chars:
  "p \<in> set (splitRegexFrom sep cur b s) \<Longrightarrow> set p \<subseteq> set cur \<union> set s"
proof (induction s arbitrary: cur b)
  case Nil
  then show ?case by simp
next
  case (Cons c cs)
  then show ?case
    by (fastforce split: if_splits)
qed

lemma sentencesOf_blank:
  assumes "\<forall>c \<in> set text. isWhiteSpace c"
  shows "sentencesOf text = []"
proof -
  have "trim p = []" if "p \<in> set (splitRegex isTerminator text)" for p
  proof -
    have "set p \<subseteq> set text"
      using splitRegexFrom_chars [of p isTerminator "[]" False "text"] that
      by (simp add: splitRegex_def)
    then show ?thesis using assms trim_eq_Nil by blast
  qed
  then show ?thesis
    by (simp add: sentencesOf_def filter_empty_conv)
qed

lemma sentencesOf_nonblank: "s \<in> set (sentencesOf text) \<Longrightarrow> trim s \<noteq> []"
  by (simp add: sentencesOf_def)

subsection \<open>The loop of the chunker\<close>

lemma chunksOk_Nil: "chunksOk md []"
  by (simp add: chunksOk_def)

lemma chunksOk_snoc:
  "chunksOk md cs \<Longrightarrow> chunkOk md (length cs) c \<Longrightarrow> chunksOk md (cs @ [c])"
  by (simp add: chunksOk_def enumerate_append_eq)

lemma chunksOk_nth: "chunksOk md cs \<Longrightarrow> i < length cs \<Longrightarrow> chunkOk md i (cs ! i)"
proof -
  assume a: "chunksOk md cs" and i: "i < length cs"
  have "(i, cs ! i) \<in> set (enumerate 0 cs)"
    using i by (simp add: in_set_enumerate_eq)
  then show ?thesis
    using a unfolding chunksOk_def list_all_iff by blast
qed

lemma chunkOk_mkChunk: "trim cur \<noteq> [] \<Longrightarrow> chunkOk md n (mkChunk md n cur pg)"
  by (simp add: chunkOk_def mkChunk_def trim_trim_ne)

lemma chunkStep_ok:
  assumes "chunksOk md chunks" "bufferOk cur" "trim raw \<noteq> []"
    and "chunkStep md cs ov (chunks, cur, pg) raw = (chunks', cur', pg')"
  shows "chunksOk md chunks' \<and> bufferOk cur' \<and> cur' \<noteq> []"
proof -
  have "trim (trim raw) \<noteq> []"
    using assms(3) by (rule trim_trim_ne)
  then obtain c where c: "c \<in> set (trim raw)" "\<not> isWhiteSpace c"
    using trim_eq_Nil by blast
  have "set (trim raw) \<subseteq> set cur'"
    using assms(4) by (auto simp add: chunkStep_def Let_def split: if_splits)
  then have buf: "cur' \<noteq> [] \<and> trim cur' \<noteq> []"
    using c trim_eq_Nil by fastforce
  have "chunksOk md chunks'"
  proof (cases "int (length cur) + int (length (trim raw)) > cs \<and> length cur > 0")
    case True
    then have "trim cur \<noteq> []" using assms(2) by (auto simp add: bufferOk_def)
    then have "chunkOk md (length chunks) (mkChunk md (length chunks) cur pg)"
      by (rule chunkOk_mkChunk)
    moreover have "chunks' = chunks @ [mkChunk md (length chunks) cur pg]"
      using True assms(4) by (simp add: chunkStep_def Let_def)
    ultimately show ?thesis using assms(1) by (simp add: chunksOk_snoc)
  next
    case False
    then have "chunks' = chunks"
      using assms(4) by (auto simp add: chunkStep_def Let_def)
    then show ?thesis using assms(1) by simp
  qed
  then show ?thesis using buf by (simp add: bufferOk_def)
qed

lemma foldl_chunkStep_ok:
  assumes "chunksOk md chunks" "bufferOk cur" "\<forall>s \<in> set ss. trim s \<noteq> []"
    and "foldl (chunkStep md cs ov) (chunks, cur, pg) ss = (chunks', cur', pg')"
  shows "chunksOk md chunks' \<and> bufferOk cur'"
  using assms
proof (induction ss arbitrary: chunks cur pg)
  case Nil
  then show ?case by simp
next
  case (Cons s ss)
  obtain c1 b1 p1 where st: "chunkStep md cs ov (chunks, cur, pg) s = (c1, b1, p1)"
    by (metis prod_cases3)
  have "chunksOk md c1 \<and> bufferOk b1 \<and> b1 \<noteq> []"
    using chunkStep_ok [OF Cons.prems(1,2) _ st] Cons.prems(3) by simp
  moreover have "foldl (chunkStep md cs ov) (c1, b1, p1) ss = (chunks', cur', pg')"
    using Cons.prems(4) st by simp
  ultimately show ?case
    using Cons.IH [of c1 b1 p1] Cons.prems(3) by simp
qed

lemma createChunks_ok: "chunksOk md (createChunks text md cs ov)"
proof -
  obtain chunks cur pg where st: "chunkLoop md cs ov (sentencesOf text) = (chunks, cur, pg)"
    by (metis prod_cases3)
  have "chunksOk md chunks \<and> bufferOk cur"
    using foldl_chunkStep_ok [of md "[]" "[]" "sentencesOf text" cs ov 1 chunks cur pg]
      st sentencesOf_nonblank
    by (simp add: chunkLoop_def chunksOk_Nil bufferOk_def)
  then show ?thesis
    using st by (simp add: createChunks_def chunksOk_snoc chunkOk_mkChunk)
qed

lemma example_three_chunks: "map (\<lambda>c. (chunk_id c, content c, chunkIndex (metadata c)))
     (createChunks ''One two. Three four! Five?'' policyMetadata 10 100) =
     [(''policy.txt_chunk_1'', ''One two'', 1), (''policy.txt_chunk_2'', ''One two Three four'', 2),
      (''policy.txt_chunk_3'', ''One two Three four Five'', 3)]"
  by code_simp

text \<open>
  C8. For every text, metadata, chunk size and overlap, every chunk of \<^verbatim>\<open>createChunks\<close>
  has a content that is not empty after trimming, the chunk at position \<open>i + 1\<close> has the
  id \<^verbatim>\<open><fileName>_chunk_<i + 1>\<close> and the ordinal \<open>i + 1\<close>; and a text that holds white
  space only (the empty text too) gives no chunk.
\<close>

theorem createChunks_ids_and_content:
  "(\<forall>i < length (createChunks text md cs ov).
      trim (content (createChunks text md cs ov ! i)) \<noteq> []
      \<and> chunk_id (createChunks text md cs ov ! i) = fileName md @ ''_chunk_'' @ natToString (i + 1)
      \<and> chunkIndex (metadata (createChunks text md cs ov ! i)) = i + 1)
   \<and> ((\<forall>c \<in> set text. isWhiteSpace c) \<longrightarrow> createChunks text md cs ov = [])"
proof -
  have "createChunks text md cs ov = []" if "\<forall>c \<in> set text. isWhiteSpace c"
    using sentencesOf_blank [OF that]
    by (simp add: createChunks_def chunkLoop_def trim_Nil)
  moreover have "\<forall>i < length (createChunks text md cs ov).
      trim (content (createChunks text md cs ov ! i)) \<noteq> []
      \<and> chunk_id (createChunks text md cs ov ! i) = fileName md @ ''_chunk_'' @ natToString (i + 1)
      \<and> chunkIndex (metadata (createChunks text md cs ov ! i)) = i + 1"
    using chunksOk_nth [OF createChunks_ok] unfolding chunkOk_def by blast
  ultimately show ?thesis by blast
qed

theorem createChunks_ids_and_content_witness:
  "(2::nat) < length (createChunks ''One two. Three four! Five?'' policyMetadata 10 100)
   \<and> chunk_id (createChunks ''One two. Three four! Five?'' policyMetadata 10 100 ! 2) =
       ''policy.txt_chunk_3''
   \<and> chunkIndex (metadata (createChunks ''One two. Three four! Five?'' policyMetadata 10 100 ! 2)) = 3
   \<and> trim (content (createChunks ''One two. Three four! Five?'' policyMetadata 10 100 ! 2)) \<noteq> []
   \<and> list_all isWhiteSpace ''  ''
   \<and> createChunks ''  '' policyMetadata 500 100 = []"
proof -
  let ?cs = "createChunks ''One two. Three four! Five?'' policyMetadata 10 100"
  have len: "length ?cs = 3"
    using arg_cong [OF example_three_chunks, of length] by simp
  have blank: "\<forall>c \<in> set ''  ''. isWhiteSpace c"
    by (simp add: isWhiteSpace_def)
  have three: "natToString (2 + 1) = ''3''"
    by (simp add: natToString.simps)
  note r = createChunks_ids_and_content [of _ policyMetadata]
  have "trim (content (?cs ! 2)) \<noteq> []
        \<and> chunk_id (?cs ! 2) = fileName policyMetadata @ ''_chunk_'' @ natToString (2 + 1)
        \<and> chunkIndex (metadata (?cs ! 2)) = 2 + 1"
    using r [of "''One two. Three four! Five?''" 10 100] len by simp
  moreover have "createChunks ''  '' policyMetadata 500 100 = []"
    using r [of "''  ''" 500 100] blank by blast
  ultimately show ?thesis
    using len blank three by (simp add: policyMetadata_def list_all_iff)
qed

subsection \<open>The page counter\<close>

lemma pagesOk_snoc:
  "pagesOk chunks pg \<Longrightarrow> pagesOk (chunks @ [mkChunk md n cur pg]) pg"
  by (auto simp add: pagesOk_def sorted_append list_all_iff mkChunk_def)

lemma pagesOk_mono: "pagesOk chunks pg \<Longrightarrow> pg \<le> pg' \<Longrightarrow> pagesOk chunks pg'"
  by (auto simp add: pagesOk_def list_all_iff)

lemma chunkStep_page:
  "snd (snd (chunkStep md cs ov (chunks, cur, pg) raw)) =
     (if 300 < length (splitChar CHR '' '' (fst (snd (chunkStep md cs ov (chunks, cur, pg) raw))))
      then pg + 1 else pg)"
  by (simp add: chunkStep_def Let_def)

lemma chunkStep_pagesOk:
  assumes "pagesOk chunks pg" "chunkStep md cs ov (chunks, cur, pg) raw = (chunks', cur', pg')"
  shows "pagesOk chunks' pg'"
proof -
  have le: "pg \<le> pg'"
    using assms(2) by (auto simp add: chunkStep_def Let_def split: if_splits)
  have "chunks' = chunks \<or> chunks' = chunks @ [mkChunk md (length chunks) cur pg]"
    using assms(2) by (auto simp add: chunkStep_def Let_def split: if_splits)
  then have "pagesOk chunks' pg"
    using assms(1) pagesOk_snoc by auto
  then show ?thesis using le by (rule pagesOk_mono)
qed

lemma foldl_chunkStep_pagesOk:
  "pagesOk chunks pg \<Longrightarrow>
   foldl (chunkStep md cs ov) (chunks, cur, pg) ss = (chunks', cur', pg') \<Longrightarrow>
   pagesOk chunks' pg'"
proof (induction ss arbitrary: chunks cur pg)
  case Nil
  then show ?case by simp
next
  case (Cons s ss)
  obtain c1 b1 p1 where st: "chunkStep md cs ov (chunks, cur, pg) s = (c1, b1, p1)"
    by (metis prod_cases3)
  have "pagesOk c1 p1"
    using chunkStep_pagesOk [OF Cons.prems(1) st] .
  then show ?case
    using Cons.IH [of c1 p1 b1] Cons.prems(2) st by simp
qed

lemma createChunks_pagesOk: "\<exists>pg. pagesOk (createChunks text md cs ov) pg"
proof -
  obtain chunks cur pg where st: "chunkLoop md cs ov (sentencesOf text) = (chunks, cur, pg)"
    by (metis prod_cases3)
  have "pagesOk [] 1" by (simp add: pagesOk_def)
  then have "pagesOk chunks pg"
    using foldl_chunkStep_pagesOk st unfolding chunkLoop_def by blast
  then have "pagesOk (createChunks text md cs ov) pg"
    using st by (simp add: createChunks_def pagesOk_snoc)
  then show ?thesis ..
qed

lemma example_pages: "map (\<lambda>c. pageNum (metadata c)) (createChunks longText policyMetadata 500 100) = [1, 2]"
  by code_simp

text \<open>
  C9. The page counter of a document starts at 1; an iteration of the loop adds 1 to it
  exactly when the buffer, after the iteration, has more than 300 words, and never
  lowers it; so the page numbers of the chunks of a document are in non-decreasing
  order (and at least 1).
\<close>

theorem pageNum_monotone:
  "snd (snd (chunkLoop md cs ov [])) = 1
   \<and> snd (snd (chunkStep md cs ov (chunks, cur, pg) raw)) =
       (if 300 < length (splitChar CHR '' ''
                    (fst (snd (chunkStep md cs ov (chunks, cur, pg) raw))))
        then pg + 1 else pg)
   \<and> pg \<le> snd (snd (chunkStep md cs ov (chunks, cur, pg) raw))
   \<and> sorted (map (\<lambda>c. pageNum (metadata c)) (createChunks text md cs ov))
   \<and> (\<forall>c \<in> set (createChunks text md cs ov). 1 \<le> pageNum (metadata c))"
proof -
  obtain p where "pagesOk (createChunks text md cs ov) p"
    using createChunks_pagesOk by blast
  then have "sorted (map (\<lambda>c. pageNum (metadata c)) (createChunks text md cs ov))"
    and "\<forall>c \<in> set (createChunks text md cs ov). 1 \<le> pageNum (metadata c)"
    by (auto simp add: pagesOk_def list_all_iff)
  moreover have "snd (snd (chunkLoop md cs ov [])) = 1"
    by (simp add: chunkLoop_def)
  moreover have "pg \<le> snd (snd (chunkStep md cs ov (chunks, cur, pg) raw))"
    unfolding chunkStep_page by simp
  ultimately show ?thesis
    using chunkStep_page by blast
qed

theorem pageNum_monotone_witness:
  "map (\<lambda>c. pageNum (metadata c)) (createChunks longText policyMetadata 500 100) = [1, 2]
   \<and> sorted (map (\<lambda>c. pageNum (metadata c)) (createChunks longText policyMetadata 500 100))
   \<and> list_all (\<lambda>c. 1 \<le> pageNum (metadata c)) (createChunks longText policyMetadata 500 100)"
  using pageNum_monotone [of policyMetadata 500 100 "[]" "[]" 1 "[]" longText] example_pages
  by (simp add: list_all_iff)

subsection \<open>The chunker and its specification\<close>

lemma fragments_filter:
  assumes "\<not> P []" "b \<longrightarrow> cur = []"
  shows "filter P (splitRegexFrom isTerminator cur b s) = filter P (specFragmentsFrom cur s)"
  using assms(2)
proof (induction s arbitrary: cur b)
  case Nil
  then show ?case by simp
next
  case (Cons c cs)
  show ?case
  proof (cases "isTerminator c")
    case True
    have ih: "filter P (splitRegexFrom isTerminator [] True cs) = filter P (specFragmentsFrom [] cs)"
      by (rule Cons.IH) simp
    show ?thesis
      using True Cons.prems ih assms(1) by auto
  next
    case False
    have "filter P (splitRegexFrom isTerminator (cur @ [c]) False cs) =
          filter P (specFragmentsFrom (cur @ [c]) cs)"
      by (rule Cons.IH) simp
    then show ?thesis using False by simp
  qed
qed

lemma sentences_spec: "map trim (sentencesOf t) = specSentences t"
proof -
  have "filter (\<lambda>s. trim s \<noteq> []) (splitRegexFrom isTerminator [] False t) =
        filter (\<lambda>s. trim s \<noteq> []) (specFragmentsFrom [] t)"
    by (rule fragments_filter) (simp_all add: trim_Nil)
  then show ?thesis
    by (simp add: sentencesOf_def specSentences_def splitRegex_def)
qed

lemma overlapWords_last:
  "1 \<le> ov div 5 \<Longrightarrow> overlapWords ov cur = lastWords (nat (ov div 5)) cur"
  by (auto simp add: overlapWords_def lastWords_def sliceFrom_def sliceIndex_def Let_def
      intro!: arg_cong2 [where f = drop])

lemma chunkStep_buffer:
  assumes "trim raw \<noteq> []" "chunkStep md cs ov (chunks, cur, pg) raw = (chunks', cur', pg')"
  shows "bufferOk cur'"
proof -
  have "trim (trim raw) \<noteq> []"
    using assms(1) by (rule trim_trim_ne)
  then obtain c where c: "c \<in> set (trim raw)" "\<not> isWhiteSpace c"
    using trim_eq_Nil by blast
  have "set (trim raw) \<subseteq> set cur'"
    using assms(2) by (auto simp add: chunkStep_def Let_def split: if_splits)
  then show ?thesis
    using c trim_eq_Nil unfolding bufferOk_def by fastforce
qed

lemma foldl_chunkStep_spec:
  assumes "1 \<le> ov div 5" "bufferOk cur" "\<forall>s \<in> set ss. trim s \<noteq> []"
  shows "map content
           (case foldl (chunkStep md cs ov) (chunks, cur, pg) ss of
              (chunks', cur', pg') \<Rightarrow>
                if trim cur' \<noteq> [] then chunks' @ [mkChunk md (length chunks') cur' pg']
                else chunks') =
         map content chunks @ map trim (specAccumulate cs ov cur (map trim ss))"
  using assms(2,3)
proof (induction ss arbitrary: chunks cur pg)
  case Nil
  then show ?case
    by (auto simp add: bufferOk_def mkChunk_def trim_Nil)
next
  case (Cons s ss)
  obtain c1 b1 p1 where st: "chunkStep md cs ov (chunks, cur, pg) s = (c1, b1, p1)"
    by (metis prod_cases3)
  have s: "trim s \<noteq> []" and rest: "\<forall>x \<in> set ss. trim x \<noteq> []"
    using Cons.prems(2) by simp_all
  have b1: "bufferOk b1"
    using chunkStep_buffer [OF s st] .
  have ih: "map content
           (case foldl (chunkStep md cs ov) (c1, b1, p1) ss of
              (chunks', cur', pg') \<Rightarrow>
                if trim cur' \<noteq> [] then chunks' @ [mkChunk md (length chunks') cur' pg']
                else chunks') =
         map content c1 @ map trim (specAccumulate cs ov b1 (map trim ss))"
    using Cons.IH [OF b1 rest] .
  show ?case
  proof (cases "int (length cur) + int (length (trim s)) > cs \<and> length cur > 0")
    case True
    then have "c1 = chunks @ [mkChunk md (length chunks) cur pg]"
      and "b1 = joinWith '' '' (lastWords (nat (ov div 5)) cur) @ '' '' @ trim s"
      using st overlapWords_last [OF assms(1)] by (simp_all add: chunkStep_def Let_def)
    then show ?thesis
      using True ih st by (simp add: mkChunk_def)
  next
    case False
    then have "c1 = chunks" and "b1 = (if cur = [] then trim s else cur @ '' '' @ trim s)"
      using st by (auto simp add: chunkStep_def Let_def)
    then show ?thesis
      using False ih st by auto
  qed
qed

lemma createChunks_refines_spec:
  assumes "5 \<le> ov"
  shows "map content (createChunks t md cs ov) = specChunks cs ov t"
proof -
  have "1 \<le> ov div 5" using assms by presburger
  then show ?thesis
    using foldl_chunkStep_spec [of ov "[]" "sentencesOf t" md cs "[]" 1] sentencesOf_nonblank
    by (simp add: createChunks_def chunkLoop_def specChunks_def sentences_spec bufferOk_def)
qed

text \<open>
  C3. The chunker as the specification words it (\<^const>\<open>specChunks\<close>: the seed of a new
  buffer is the last \<open>floor (overlap / 5)\<close> words of the emitted one) and the code agree
  when \<open>overlap \<ge> 5\<close> (\<open>createChunks_refines_spec\<close>, which covers the default 100). With
  \<open>overlap = 0\<close> they differ: \<^verbatim>\<open>words.slice(-0)\<close> is the whole array, so the code carries
  every word of the emitted buffer into the next one, where the specification carries
  none.
\<close>

theorem createChunks_overlap_zero:
  "map content (createChunks ''aaaa bbbb. cccc dddd. eeee'' policyMetadata 10 0) =
     [''aaaa bbbb'', ''aaaa bbbb cccc dddd'', ''aaaa bbbb cccc dddd eeee'']
   \<and> specChunks 10 0 ''aaaa bbbb. cccc dddd. eeee'' = [''aaaa bbbb'', ''cccc dddd'', ''eeee'']"
  by code_simp

section \<open>A scenario from ingestion to search\<close>

lemma policy_stats: "fst (initialize policyEnv exampleClock newProcessor) =
     \<lparr>totalDocuments = 1, totalChunks = 1, documentStats = [(''policy.txt'', 1)]\<rparr>"
  by code_simp

lemma policy_search: "map (\<lambda>h. (source h, relevance h))
     (searchChunks (vectorStore (snd (initialize policyEnv exampleClock newProcessor)))
        ''password'' 5) = [(''policy.txt (Page 1)'', 1)]"
  by code_simp

lemma policy_chunks:
  "map content (createChunks ''Reset your password. Use the portal.'' policyMetadata 500 100) =
     [''Reset your password Use the portal'']"
  by code_simp

lemma policy_keywords:
  "map (\<lambda>p. keywords_e (snd p))
     (vectorStore (snd (initialize policyEnv exampleClock newProcessor))) =
     [[''reset'', ''your'', ''password'', ''use'', ''portal'']]
   \<and> extractKeywords ''password'' = [''password'']"
  by code_simp

lemma policy_direct:
  "snd (initialize policyEnv exampleClock newProcessor) =
     (processDocument (exampleClock 0) (''policy.txt'', ''Reset your password. Use the portal.'')
        newProcessor)\<lparr>isInitialized := True\<rparr>"
  by code_simp

text \<open>
  C4. Ingesting the one document \<^verbatim>\<open>policy.txt\<close> with the content
  \<^verbatim>\<open>Reset your password. Use the portal.\<close> and the default chunk size 500 gives one chunk
  (one document and one entry in the statistics); the search for \<^verbatim>\<open>password\<close> returns
  exactly one hit, with the source \<^verbatim>\<open>policy.txt (Page 1)\<close> and the relevance 1; the query
  has the one keyword \<^verbatim>\<open>password\<close>, which is among the keywords of the chunk.
\<close>

theorem policy_scenario:
  "length (createChunks ''Reset your password. Use the portal.'' policyMetadata 500 100) = 1
   \<and> fst (initialize policyEnv exampleClock newProcessor) =
       \<lparr>totalDocuments = 1, totalChunks = 1, documentStats = [(''policy.txt'', 1)]\<rparr>
   \<and> snd (initialize policyEnv exampleClock newProcessor) =
       (processDocument (exampleClock 0)
          (''policy.txt'', ''Reset your password. Use the portal.'') newProcessor)
         \<lparr>isInitialized := True\<rparr>
   \<and> map (\<lambda>h. (source h, relevance h))
        (searchChunks (vectorStore (snd (initialize policyEnv exampleClock newProcessor)))
           ''password'' 5) = [(''policy.txt (Page 1)'', 1)]
   \<and> extractKeywords ''password'' = [''password'']
   \<and> map (\<lambda>p. keywords_e (snd p))
        (vectorStore (snd (initialize policyEnv exampleClock newProcessor))) =
       [[''reset'', ''your'', ''password'', ''use'', ''portal'']]"
proof -
  have "length (createChunks ''Reset your password. Use the portal.'' policyMetadata 500 100) = 1"
    using arg_cong [OF policy_chunks, of length] by simp
  then show ?thesis
    using policy_stats policy_direct policy_search policy_keywords by blast
qed

section \<open>Properties of the ingestion\<close>

subsection \<open>Loading\<close>

lemma loadAsset_Some:
  "loadAsset env name = Inr (Some d, w) \<Longrightarrow> fst d = name \<and> trim (snd d) \<noteq> []"
  by (auto simp add: loadAsset_def split: sum.splits if_splits option.splits)

lemma loaded_iff:
  "loaded env name \<longleftrightarrow>
     (\<exists>response file t. fetchAsset env name = Inr response \<and> asset_ok response
        \<and> asset_blob response = Inr file \<and> extractTextFromFile file name = Some t
        \<and> trim t \<noteq> [])"
  by (auto simp add: loaded_def loadAsset_def trim_Nil split: sum.splits if_splits option.splits)

lemma loadAsset_thrown:
  "loadAsset env name = Inl error \<Longrightarrow> \<not> rejectsNullish env name \<Longrightarrow> error \<noteq> Nullish"
  by (auto simp add: loadAsset_def rejectsNullish_def split: sum.splits if_splits option.splits)

lemma loadAsset_lines:
  "loadAsset env name = Inr (None, w) \<Longrightarrow> \<not> notOk env name \<Longrightarrow> LogNoContent name \<in> set w"
  by (auto simp add: loadAsset_def notOk_def split: sum.splits if_splits option.splits)

lemma messageOf_Inl: "messageOf error = Inl typeError \<Longrightarrow> error = Nullish"
  by (cases error) simp_all

lemma loadStep_ok:
  assumes "\<not> rejectsNullish env name"
  shows "\<exists>docs' lines'.
           loadStep env (docs, lines) name = Inr (docs', lines')
           \<and> map fst docs' = map fst docs @ (if loaded env name then [name] else [])
           \<and> (list_all (\<lambda>d. trim (snd d) \<noteq> []) docs
                \<longrightarrow> list_all (\<lambda>d. trim (snd d) \<noteq> []) docs')
           \<and> set lines \<subseteq> set lines'
           \<and> (\<not> loaded env name \<and> \<not> notOk env name \<longrightarrow>
                LogNoContent name \<in> set lines' \<or> (\<exists>m. LogError name m \<in> set lines'))"
proof (cases "loadAsset env name")
  case (Inl error)
  then have "error \<noteq> Nullish"
    using assms by (rule loadAsset_thrown)
  then obtain m where m: "messageOf error = Inr m"
    using messageOf_Inl by (cases "messageOf error") auto
  have "\<not> loaded env name"
    using Inl by (simp add: loaded_def)
  then show ?thesis
    using Inl m by (auto simp add: loadStep_def)
next
  case (Inr r)
  obtain doc w where r: "r = (doc, w)" by (cases r)
  show ?thesis
  proof (cases doc)
    case None
    then have "\<not> loaded env name"
      using Inr r by (simp add: loaded_def)
    moreover have "\<not> notOk env name \<longrightarrow> LogNoContent name \<in> set w"
      using loadAsset_lines Inr r None by blast
    ultimately show ?thesis
      using Inr r None by (auto simp add: loadStep_def)
  next
    case (Some d)
    then have "loaded env name" "fst d = name" "trim (snd d) \<noteq> []"
      using Inr r loadAsset_Some [of env name d w] by (simp_all add: loaded_def)
    then show ?thesis
      using Inr r Some by (auto simp add: loadStep_def)
  qed
qed

lemma loadLoop_ok:
  assumes "list_all (\<lambda>n. \<not> rejectsNullish env n) names"
    and "list_all (\<lambda>d. trim (snd d) \<noteq> []) docs"
  shows "map fst (fst (loadLoop env (docs, lines) names)) = map fst docs @ filter (loaded env) names
         \<and> list_all (\<lambda>d. trim (snd d) \<noteq> []) (fst (loadLoop env (docs, lines) names))
         \<and> set lines \<subseteq> set (snd (loadLoop env (docs, lines) names))
         \<and> (\<forall>n \<in> set names. \<not> loaded env n \<and> \<not> notOk env n \<longrightarrow>
                LogNoContent n \<in> set (snd (loadLoop env (docs, lines) names))
                \<or> (\<exists>m. LogError n m \<in> set (snd (loadLoop env (docs, lines) names))))"
  using assms
proof (induction names arbitrary: docs lines)
  case Nil
  then show ?case by simp
next
  case (Cons n names)
  have n: "\<not> rejectsNullish env n" and rest: "list_all (\<lambda>n. \<not> rejectsNullish env n) names"
    using Cons.prems(1) by simp_all
  obtain docs' lines' where st: "loadStep env (docs, lines) n = Inr (docs', lines')"
    and names: "map fst docs' = map fst docs @ (if loaded env n then [n] else [])"
    and ok: "list_all (\<lambda>d. trim (snd d) \<noteq> []) docs'"
    and sub: "set lines \<subseteq> set lines'"
    and line: "\<not> loaded env n \<and> \<not> notOk env n \<longrightarrow>
                LogNoContent n \<in> set lines' \<or> (\<exists>m. LogError n m \<in> set lines')"
    using loadStep_ok [OF n, of docs lines] Cons.prems(2) by blast
  note ih = Cons.IH [OF rest ok, of lines']
  have eq: "loadLoop env (docs, lines) (n # names) = loadLoop env (docs', lines') names"
    using st by simp
  show ?case
    unfolding eq using ih names sub line by auto
qed

lemma loadAssetsDocuments_names:
  assumes "list_all (\<lambda>n. \<not> rejectsNullish env n) (discoverFilesInAssets env)"
  shows "map fst (fst (loadAssetsDocuments env p)) = filter (loaded env) (discoverFilesInAssets env)
   \<and> list_all (\<lambda>d. trim (snd d) \<noteq> []) (fst (loadAssetsDocuments env p))
   \<and> documents (snd (loadAssetsDocuments env p)) = []
   \<and> vectorStore (snd (loadAssetsDocuments env p)) = []
   \<and> isInitialized (snd (loadAssetsDocuments env p)) = isInitialized p"
  using loadLoop_ok [OF assms, of "[]" "[]"]
  by (simp add: loadAssetsDocuments_def)

lemma loadLog_lines:
  assumes "list_all (\<lambda>n. \<not> rejectsNullish env n) (discoverFilesInAssets env)"
  shows "\<forall>n \<in> set (discoverFilesInAssets env). \<not> loaded env n \<and> \<not> notOk env n \<longrightarrow>
           LogNoContent n \<in> set (loadLog env) \<or> (\<exists>m. LogError n m \<in> set (loadLog env))"
  using loadLoop_ok [OF assms, of "[]" "[]"]
  by (simp add: loadLog_def)

subsection \<open>Processing\<close>

lemma storeOf_mono: "storeOf S vs \<Longrightarrow> S \<subseteq> T \<Longrightarrow> storeOf T vs"
  by (auto simp add: storeOf_def list_all_iff)

lemma storeOf_indexChunk:
  "storeOf S vs \<Longrightarrow> fileName (metadata c) \<in> S \<Longrightarrow> storeOf S (indexChunk vs c)"
  using set_mapSet [of "chunk_id c" _ vs]
  by (fastforce simp add: storeOf_def list_all_iff indexChunk_def)

lemma storeOf_addToVectorStore:
  "storeOf S vs \<Longrightarrow> \<forall>c \<in> set chunks. fileName (metadata c) \<in> S \<Longrightarrow>
   storeOf S (addToVectorStore chunks vs)"
  unfolding addToVectorStore_def
  by (induction chunks arbitrary: vs) (simp_all add: storeOf_indexChunk)

lemma createChunks_fileName:
  "c \<in> set (createChunks t md cs ov) \<Longrightarrow> fileName (metadata c) = fileName md"
proof -
  assume "c \<in> set (createChunks t md cs ov)"
  then obtain i where "i < length (createChunks t md cs ov)" "c = createChunks t md cs ov ! i"
    by (metis in_set_conv_nth)
  then show ?thesis
    using chunksOk_nth [OF createChunks_ok, of i t md cs ov] by (simp add: chunkOk_def)
qed

lemma processDocument_effect:
  assumes "trim t \<noteq> []" "storeOf S (vectorStore p)"
  shows "map doc_fileName (documents (processDocument now (name, t) p)) =
           map doc_fileName (documents p) @ [name]
         \<and> storeOf (insert name S) (vectorStore (processDocument now (name, t) p))
         \<and> isInitialized (processDocument now (name, t) p) = isInitialized p"
proof -
  let ?md = "\<lparr>fileName = name, fileType = last (splitChar CHR ''.'' name), processedAt = now\<rparr>"
  have "storeOf (insert name S) (vectorStore p)"
    using assms(2) by (rule storeOf_mono) auto
  then have "storeOf (insert name S) (addToVectorStore (createChunks t ?md 500 100) (vectorStore p))"
    by (rule storeOf_addToVectorStore) (simp add: createChunks_fileName)
  then show ?thesis
    using assms(1) by (simp add: processDocument_def Let_def)
qed

lemma foldl_processDocument:
  assumes "list_all (\<lambda>d. trim (snd d) \<noteq> []) docs" "storeOf S (vectorStore p)"
  shows "map doc_fileName
           (documents (foldl (\<lambda>q (i, doc). processDocument (clock i) doc q) p (enumerate n docs))) =
           map doc_fileName (documents p) @ map fst docs
         \<and> storeOf (S \<union> set (map fst docs))
             (vectorStore (foldl (\<lambda>q (i, doc). processDocument (clock i) doc q) p
                (enumerate n docs)))
         \<and> isInitialized (foldl (\<lambda>q (i, doc). processDocument (clock i) doc q) p
                (enumerate n docs)) = isInitialized p"
  using assms
proof (induction docs arbitrary: p n S)
  case Nil
  then show ?case by simp
next
  case (Cons d docs)
  obtain name t where d: "d = (name, t)" by (cases d)
  have t: "trim t \<noteq> []" and rest: "list_all (\<lambda>d. trim (snd d) \<noteq> []) docs"
    using Cons.prems(1) d by simp_all
  note e = processDocument_effect [OF t Cons.prems(2), of "clock n" name]
  have st: "storeOf (insert name S) (vectorStore (processDocument (clock n) (name, t) p))"
    using e by blast
  note ih = Cons.IH [OF rest st, of "Suc n"]
  show ?case
    using ih e d by simp
qed

lemma processAll_effect:
  assumes "list_all (\<lambda>d. trim (snd d) \<noteq> []) docs" "vectorStore p = []"
  shows "map doc_fileName (documents (processAll clock docs p)) =
           map doc_fileName (documents p) @ map fst docs
         \<and> storeOf (set (map fst docs)) (vectorStore (processAll clock docs p))
         \<and> isInitialized (processAll clock docs p) = isInitialized p"
proof -
  have "storeOf {} (vectorStore p)"
    using assms(2) by (simp add: storeOf_def)
  from foldl_processDocument [OF assms(1) this, of clock 0] show ?thesis
    by (simp add: processAll_def)
qed

lemma extract_txt_error:
  "toLowerCase (last (splitChar CHR ''.'' name)) = ''txt'' \<Longrightarrow> file_text file = Inl e \<Longrightarrow>
   extractTextFromFile file name = None"
  by (simp add: extractTextFromFile_def extractTextFile_def)

lemma extract_word_error:
  "toLowerCase (last (splitChar CHR ''.'' name)) \<in> set [''docx'', ''doc''] \<Longrightarrow>
   file_word file = Inl (ErrorObject m) \<Longrightarrow>
   extractTextFromFile file name =
     Some (''[Error extracting text from Word document: '' @ m @ '']'')"
  by (auto simp add: extractTextFromFile_def extractWordText_def)

lemma extract_unsupported:
  "toLowerCase (last (splitChar CHR ''.'' name)) \<notin> set [''pdf'', ''docx'', ''doc'', ''txt''] \<Longrightarrow>
   extractTextFromFile file name = None"
  by (simp add: extractTextFromFile_def)

lemma mixed_loaded: "filter (loaded mixedEnv) (discoverFilesInAssets mixedEnv) = [''policy.txt'']"
  by code_simp

lemma mixed_no_nullish:
  "list_all (\<lambda>n. \<not> rejectsNullish mixedEnv n) (discoverFilesInAssets mixedEnv)"
  by code_simp

lemma mixed_log:
  "loadLog mixedEnv =
     [LogProcessing ''broken.txt'', LogNoContent ''broken.txt'',
      LogProcessing ''policy.txt'', LogSuccess ''policy.txt'' 36,
      LogProcessing ''blank.txt'', LogNoContent ''blank.txt'',
      LogProcessing ''logo.png'', LogNoContent ''logo.png'',
      LogError ''gone.txt'' ''Failed to fetch'']"
  by code_simp

text \<open>When a request rejects with \<^verbatim>\<open>undefined\<close>, reading \<^verbatim>\<open>error.message\<close> in the \<^verbatim>\<open>catch\<close> of
  the loop throws, the loop ends, and the files after it are not loaded.\<close>

lemma nullish_rejection_ends_the_loop:
  "discoverFilesInAssets nullishEnv = [''policy.txt'', ''gone.txt'', ''vpn.txt'']
   \<and> rejectsNullish nullishEnv ''gone.txt''
   \<and> map doc_fileName (documents (snd (initialize nullishEnv exampleClock newProcessor))) =
       [''policy.txt'']
   \<and> loadLog nullishEnv = [LogProcessing ''policy.txt'', LogSuccess ''policy.txt'' 36]"
  by code_simp

lemma mixed_stats:
  "fst (initialize mixedEnv exampleClock newProcessor) =
     \<lparr>totalDocuments = 1, totalChunks = 1, documentStats = [(''policy.txt'', 1)]\<rparr>"
  by code_simp

lemma mixed_broken:
  "fetchAsset mixedEnv ''broken.txt'' =
     Inr \<lparr>asset_ok = True,
          asset_blob = Inr \<lparr>file_name = None, file_text = Inl (ErrorObject ''read failed''),
                            file_word = Inl (ErrorObject ''Could not find the document'')\<rparr>\<rparr>"
  by (simp add: mixedEnv_def)

text \<open>
  C6, as the code has it. Take a batch that \<^verbatim>\<open>initialize\<close> loads from the manifest and in
  which no request and no \<^verbatim>\<open>blob()\<close> rejects with \<^verbatim>\<open>null\<close> or \<^verbatim>\<open>undefined\<close>. The documents
  recorded are, in order, exactly those of the names for which the request and \<^verbatim>\<open>blob()\<close>
  succeed and \<^verbatim>\<open>extractTextFromFile\<close> returns a text that is not empty after trimming;
  the statistics count these documents only, and every chunk of the store belongs to
  one of them. Every other name is skipped, and the loop writes a line for it (no
  content, or the error) unless its response was not ok. \<^verbatim>\<open>extractTextFromFile\<close> returns
  \<^verbatim>\<open>null\<close> for a plain-text file whose read throws and for an unsupported extension, so
  these files are skipped; for a Word file whose extraction throws an \<^verbatim>\<open>Error\<close> it returns
  the bracketed message of \<^verbatim>\<open>extractWordText\<close>. The function returns the statistics in
  every world: a throw of an iteration is caught for its file or, at the latest, by the
  \<^verbatim>\<open>catch\<close> around the loop.
\<close>

theorem initialize_skips_failed_documents:
  assumes "\<not> isInitialized p"
    and "list_all (\<lambda>n. \<not> rejectsNullish env n) (discoverFilesInAssets env)"
  shows "map doc_fileName (documents (snd (initialize env clock p))) =
           filter (loaded env) (discoverFilesInAssets env)
         \<and> documentStats (fst (initialize env clock p)) =
             map (\<lambda>doc. (doc_fileName doc, doc_chunks doc)) (documents (snd (initialize env clock p)))
         \<and> totalDocuments (fst (initialize env clock p)) =
             length (filter (loaded env) (discoverFilesInAssets env))
         \<and> totalChunks (fst (initialize env clock p)) =
             length (vectorStore (snd (initialize env clock p)))
         \<and> storeOf (set (filter (loaded env) (discoverFilesInAssets env)))
             (vectorStore (snd (initialize env clock p)))
         \<and> (\<forall>n \<in> set (discoverFilesInAssets env). \<not> loaded env n \<and> \<not> notOk env n \<longrightarrow>
                LogNoContent n \<in> set (loadLog env) \<or> (\<exists>m. LogError n m \<in> set (loadLog env)))
         \<and> (loaded env name \<longleftrightarrow>
              (\<exists>response file t. fetchAsset env name = Inr response \<and> asset_ok response
                 \<and> asset_blob response = Inr file \<and> extractTextFromFile file name = Some t
                 \<and> trim t \<noteq> []))
         \<and> (toLowerCase (last (splitChar CHR ''.'' name)) = ''txt'' \<and> file_text file = Inl e
              \<longrightarrow> extractTextFromFile file name = None)
         \<and> (toLowerCase (last (splitChar CHR ''.'' name)) \<notin> set [''pdf'', ''docx'', ''doc'', ''txt'']
              \<longrightarrow> extractTextFromFile file name = None)
         \<and> (toLowerCase (last (splitChar CHR ''.'' name)) \<in> set [''docx'', ''doc'']
              \<and> file_word file = Inl (ErrorObject m)
              \<longrightarrow> extractTextFromFile file name =
                    Some (''[Error extracting text from Word document: '' @ m @ '']''))"
proof -
  obtain docs p1 where l: "loadAssetsDocuments env p = (docs, p1)"
    by (cases "loadAssetsDocuments env p")
  have names: "map fst docs = filter (loaded env) (discoverFilesInAssets env)"
    and ok: "list_all (\<lambda>d. trim (snd d) \<noteq> []) docs"
    and p1: "documents p1 = []" "vectorStore p1 = []"
    using loadAssetsDocuments_names [OF assms(2), of p] l by simp_all
  define p2 where "p2 = (if length docs > 0 then processAll clock docs p1 else p1)"
  have p2: "map doc_fileName (documents p2) = map fst docs
            \<and> storeOf (set (map fst docs)) (vectorStore p2)"
  proof (cases "length docs > 0")
    case True
    then show ?thesis
      using processAll_effect [OF ok p1(2), of clock] p1(1) by (simp add: p2_def)
  next
    case False
    then show ?thesis
      using p1 by (simp add: p2_def storeOf_def)
  qed
  have init: "initialize env clock p = (getStats (p2\<lparr>isInitialized := True\<rparr>), p2\<lparr>isInitialized := True\<rparr>)"
    using assms(1) l by (simp add: initialize_def Let_def p2_def)
  have len: "length (documents p2) = length (filter (loaded env) (discoverFilesInAssets env))"
    using p2 names by (metis length_map)
  have first: "map doc_fileName (documents (snd (initialize env clock p))) =
           filter (loaded env) (discoverFilesInAssets env)
         \<and> documentStats (fst (initialize env clock p)) =
             map (\<lambda>doc. (doc_fileName doc, doc_chunks doc)) (documents (snd (initialize env clock p)))
         \<and> totalDocuments (fst (initialize env clock p)) =
             length (filter (loaded env) (discoverFilesInAssets env))
         \<and> totalChunks (fst (initialize env clock p)) =
             length (vectorStore (snd (initialize env clock p)))
         \<and> storeOf (set (filter (loaded env) (discoverFilesInAssets env)))
             (vectorStore (snd (initialize env clock p)))"
    unfolding init using p2 names len by (simp add: getStats_def)
  show ?thesis
    using first loadLog_lines [OF assms(2)] loaded_iff [of env name]
      extract_txt_error [of name "file" e] extract_unsupported [of name "file"]
      extract_word_error [of name "file" m]
    by blast
qed

theorem initialize_skips_failed_documents_witness:
  "\<not> isInitialized newProcessor
   \<and> list_all (\<lambda>n. \<not> rejectsNullish mixedEnv n) (discoverFilesInAssets mixedEnv)
   \<and> discoverFilesInAssets mixedEnv =
       [''broken.txt'', ''policy.txt'', ''blank.txt'', ''logo.png'', ''gone.txt'']
   \<and> map doc_fileName (documents (snd (initialize mixedEnv exampleClock newProcessor))) =
       [''policy.txt'']
   \<and> fst (initialize mixedEnv exampleClock newProcessor) =
       \<lparr>totalDocuments = 1, totalChunks = 1, documentStats = [(''policy.txt'', 1)]\<rparr>
   \<and> loadLog mixedEnv =
       [LogProcessing ''broken.txt'', LogNoContent ''broken.txt'',
        LogProcessing ''policy.txt'', LogSuccess ''policy.txt'' 36,
        LogProcessing ''blank.txt'', LogNoContent ''blank.txt'',
        LogProcessing ''logo.png'', LogNoContent ''logo.png'',
        LogError ''gone.txt'' ''Failed to fetch'']
   \<and> extractTextFromFile
        \<lparr>file_name = None, file_text = Inl (ErrorObject ''read failed''),
         file_word = Inl (ErrorObject ''Could not find the document'')\<rparr> ''broken.txt'' = None"
proof -
  have fresh: "\<not> isInitialized newProcessor"
    by (simp add: newProcessor_def)
  have names: "discoverFilesInAssets mixedEnv =
       [''broken.txt'', ''policy.txt'', ''blank.txt'', ''logo.png'', ''gone.txt'']"
    by (simp add: discoverFilesInAssets_def mixedEnv_def)
  have ext: "toLowerCase (last (splitChar CHR ''.'' ''broken.txt'')) = ''txt''"
    by code_simp
  note r = initialize_skips_failed_documents [OF fresh mixed_no_nullish,
      of exampleClock "''broken.txt''"
      "\<lparr>file_name = None, file_text = Inl (ErrorObject ''read failed''),
         file_word = Inl (ErrorObject ''Could not find the document'')\<rparr>" "ErrorObject ''read failed''"]
  have docs: "map doc_fileName (documents (snd (initialize mixedEnv exampleClock newProcessor))) =
       [''policy.txt'']"
    using r mixed_loaded by metis
  have none: "extractTextFromFile
        \<lparr>file_name = None, file_text = Inl (ErrorObject ''read failed''),
         file_word = Inl (ErrorObject ''Could not find the document'')\<rparr> ''broken.txt'' = None"
    using r ext by simp
  show ?thesis
    using fresh mixed_no_nullish names docs mixed_stats mixed_log none by blast
qed

text \<open>
  C6 as stated fails for a Word document: when its extraction throws, \<^verbatim>\<open>extractWordText\<close>
  catches the error and returns a bracketed message, which is not empty, so the document
  is recorded, chunked and counted.
\<close>

theorem word_extraction_error_is_ingested:
  "file_word brokenWordFile = Inl (ErrorObject ''Corrupted zip'')
   \<and> fetchAsset wordEnv ''report.docx'' = Inr \<lparr>asset_ok = True, asset_blob = Inr brokenWordFile\<rparr>
   \<and> discoverFilesInAssets wordEnv = [''report.docx'', ''policy.txt'']
   \<and> extractTextFromFile brokenWordFile ''report.docx'' =
       Some ''[Error extracting text from Word document: Corrupted zip]''
   \<and> fst (initialize wordEnv exampleClock newProcessor) =
       \<lparr>totalDocuments = 2, totalChunks = 2,
        documentStats = [(''report.docx'', 1), (''policy.txt'', 1)]\<rparr>
   \<and> map (\<lambda>p. content (chunk (snd p)))
        (vectorStore (snd (initialize wordEnv exampleClock newProcessor))) =
       [''[Error extracting text from Word document: Corrupted zip]'',
        ''Reset your password Use the portal'']"
  by code_simp

section \<open>Properties of the tool handler\<close>

lemma status_respond_cases:
  "(status (respond query res) = ''no_results'' \<longleftrightarrow> res = Inr [])
   \<and> (status (respond query res) = ''success'' \<longleftrightarrow> (\<exists>rs. res = Inr rs \<and> rs \<noteq> []))
   \<and> (status (respond query res) = ''error'' \<longleftrightarrow> (\<exists>e. res = Inl e))"
  by (cases res) (auto simp add: respond_def Let_def)

lemma respond_success:
  "rs \<noteq> [] \<Longrightarrow>
   respond query (Inr rs) =
     Success (''Found '' @ natToString (length rs) @ '' relevant document chunks for your query.'')
       query (length rs)
       (truncateTo 2000 (joinWith [CHR 0x0A, CHR 0x0A] (map formatResult (enumerate 0 rs))))
       (map res_source rs)
       (truncateTo 400 (joinWith [CHR 0x0A, CHR 0x0A] (map formatResult (enumerate 0 rs))))"
  by (simp add: respond_def Let_def)

lemma respond_failure:
  "respond query (Inl e) =
     Failure ''Failed to search documents''
       (case e of ErrorObject m \<Rightarrow> m | _ \<Rightarrow> ''Unknown error'')"
  by (simp add: respond_def)

lemma searchChunks_empty_store: "searchChunks [] q k = []"
  by (simp add: searchChunks_def scoredEntries_def sortByRelevance_def slice_def)

lemma searchDocuments_empty_store:
  "ragInitialized r \<Longrightarrow> vectorStore (documentProcessor r) = [] \<Longrightarrow>
   fst (searchDocuments env clock r (JsString q) k) = Inr []"
  by (simp add: searchDocuments_def searchChunksOn_def searchChunks_empty_store)

lemma initialize_nothing_discovered:
  "discoverFilesInAssets env = [] \<Longrightarrow>
   initialize env clock newProcessor =
     (\<lparr>totalDocuments = 0, totalChunks = 0, documentStats = []\<rparr>,
      \<lparr>vectorStore = [], documents = [], isInitialized = True\<rparr>)"
  by (simp add: initialize_def loadAssetsDocuments_def newProcessor_def getStats_def)

lemma searchDocuments_nothing_discovered:
  "discoverFilesInAssets env = [] \<Longrightarrow>
   fst (searchDocuments env clock newService (JsString q) k) = Inr []"
  by (simp add: searchDocuments_def ragInitialize_def newService_def
      initialize_nothing_discovered searchChunksOn_def searchChunks_empty_store)

lemma searchDocuments_not_string:
  "fst (searchDocuments env clock r (JsOther msg) k) = Inl (ErrorObject msg)"
  by (simp add: searchDocuments_def searchChunksOn_def Let_def)

lemma search_documents_respond:
  "fst (search_documents env clock r query top_k) =
     respond query
       (fst (searchDocuments env clock r query (case top_k of None \<Rightarrow> 5 | Some k \<Rightarrow> k)))"
  by (simp add: search_documents_def split: prod.splits)

lemma policy_tool_call:
  "status (fst (search_documents policyEnv exampleClock newService (JsString ''password'') None)) =
     ''success''
   \<and> sources (fst (search_documents policyEnv exampleClock newService (JsString ''password'') None)) =
       [''policy.txt (Page 1)'']"
  by code_simp

text \<open>
  C5. The handler of \<^verbatim>\<open>search_documents\<close> answers with what \<open>respond\<close> makes of the outcome
  of the search. The status is one of \<^verbatim>\<open>success\<close>, \<^verbatim>\<open>no_results\<close> and \<^verbatim>\<open>error\<close>: it is
  \<^verbatim>\<open>no_results\<close> exactly when the search returned the empty array, \<^verbatim>\<open>success\<close> (with the
  content, the sources and the summary) exactly when it returned a non-empty one, and
  \<^verbatim>\<open>error\<close> (with the message) exactly when the search threw; the handler itself returns
  in each case. With no document ingested every string query gives \<^verbatim>\<open>no_results\<close>, and a
  query that is no string, on which the search throws, gives \<^verbatim>\<open>error\<close>.
\<close>

theorem search_documents_three_statuses:
  "fst (search_documents env clock r query top_k) =
     respond query
       (fst (searchDocuments env clock r query (case top_k of None \<Rightarrow> 5 | Some k \<Rightarrow> k)))
   \<and> status (respond query res) \<in> set [''success'', ''no_results'', ''error'']
   \<and> (status (respond query res) = ''no_results'' \<longleftrightarrow> res = Inr [])
   \<and> (status (respond query res) = ''success'' \<longleftrightarrow> (\<exists>rs. res = Inr rs \<and> rs \<noteq> []))
   \<and> (status (respond query res) = ''error'' \<longleftrightarrow> (\<exists>e. res = Inl e))
   \<and> (rs \<noteq> [] \<longrightarrow>
        r_query (respond query (Inr rs)) = query
        \<and> total_results (respond query (Inr rs)) = length rs
        \<and> sources (respond query (Inr rs)) = map res_source rs
        \<and> document_content (respond query (Inr rs)) =
            truncateTo 2000 (joinWith [CHR 0x0A, CHR 0x0A] (map formatResult (enumerate 0 rs)))
        \<and> summary (respond query (Inr rs)) =
            truncateTo 400 (joinWith [CHR 0x0A, CHR 0x0A] (map formatResult (enumerate 0 rs))))
   \<and> respond query (Inl e) =
       Failure ''Failed to search documents''
         (case e of ErrorObject m \<Rightarrow> m | _ \<Rightarrow> ''Unknown error'')
   \<and> (ragInitialized r \<and> vectorStore (documentProcessor r) = [] \<longrightarrow>
        status (fst (search_documents env clock r (JsString q) top_k)) = ''no_results'')
   \<and> (discoverFilesInAssets env = [] \<longrightarrow>
        status (fst (search_documents env clock newService (JsString q) top_k)) = ''no_results'')
   \<and> status (fst (search_documents env clock r (JsOther msg) top_k)) = ''error''"
proof -
  have three: "status (respond query res) \<in> set [''success'', ''no_results'', ''error'']"
    by (cases "respond query res") simp_all
  have fields: "r_query (respond query (Inr rs)) = query
        \<and> total_results (respond query (Inr rs)) = length rs
        \<and> sources (respond query (Inr rs)) = map res_source rs
        \<and> document_content (respond query (Inr rs)) =
            truncateTo 2000 (joinWith [CHR 0x0A, CHR 0x0A] (map formatResult (enumerate 0 rs)))
        \<and> summary (respond query (Inr rs)) =
            truncateTo 400 (joinWith [CHR 0x0A, CHR 0x0A] (map formatResult (enumerate 0 rs)))"
    if "rs \<noteq> []"
    unfolding respond_success [OF that] by simp
  have empty: "status (fst (search_documents env clock r (JsString q) top_k)) = ''no_results''"
    if "ragInitialized r \<and> vectorStore (documentProcessor r) = []"
    unfolding search_documents_respond using that searchDocuments_empty_store status_respond_cases
    by metis
  have fresh: "status (fst (search_documents env clock newService (JsString q) top_k)) = ''no_results''"
    if "discoverFilesInAssets env = []"
    unfolding search_documents_respond
    using searchDocuments_nothing_discovered [OF that] status_respond_cases by metis
  have err: "status (fst (search_documents env clock r (JsOther msg) top_k)) = ''error''"
    unfolding search_documents_respond searchDocuments_not_string
    using status_respond_cases by blast
  show ?thesis
    using search_documents_respond three status_respond_cases fields respond_failure
      empty fresh err
    by blast
qed

theorem search_documents_three_statuses_witness:
  "discoverFilesInAssets emptyEnv = []
   \<and> status (fst (search_documents emptyEnv exampleClock newService (JsString ''anything'') None)) =
       ''no_results''
   \<and> status (fst (search_documents policyEnv exampleClock newService (JsString ''password'') None)) =
       ''success''
   \<and> status (fst (search_documents policyEnv exampleClock newService
        (JsOther ''text.toLowerCase is not a function'') (Some 3))) = ''error''"
proof -
  have d: "discoverFilesInAssets emptyEnv = []"
    by (simp add: discoverFilesInAssets_def emptyEnv_def)
  have a: "status (fst (search_documents emptyEnv exampleClock newService (JsString ''anything'') None)) =
       ''no_results''"
    using search_documents_three_statuses
      [where env = emptyEnv and clock = exampleClock and q = "''anything''" and top_k = None] d
    by blast
  have b: "status (fst (search_documents policyEnv exampleClock newService
        (JsOther ''text.toLowerCase is not a function'') (Some 3))) = ''error''"
    using search_documents_three_statuses
      [where env = policyEnv and clock = exampleClock and r = newService
         and msg = "''text.toLowerCase is not a function''" and top_k = "Some 3"]
    by blast
  show ?thesis
    using d a b policy_tool_call by blast
qed

end
